theory Spec2Isabelle
  imports Main "HOL-Library.Word"
begin

section \<open>RomFS reader of nxdumptool (source/romfs.h)\<close>

text \<open>
  The header \<^verbatim>\<open>romfs.h\<close> declares the RomFS data structures, defines three inline
  functions (\<^verbatim>\<open>romfsFreeContext\<close>, \<^verbatim>\<open>romfsGetDirectoryEntry\<close>,
  \<^verbatim>\<open>romfsGetFileEntry\<close>) and declares five functions whose bodies live in a
  translation unit that is not among the sources.

  Target platform: Nintendo Switch (AArch64, LP64, little endian), so \<^verbatim>\<open>size_t\<close>
  and \<^verbatim>\<open>u64\<close> are 64-bit words and \<^verbatim>\<open>u32\<close> is a 32-bit word.
\<close>

subsection \<open>Machine integers, pointers and memory\<close>

type_synonym u8 = "8 word"
type_synonym u32 = "32 word"
type_synonym u64 = "64 word"

text \<open>
  A pointer is either \<^verbatim>\<open>NULL\<close> or a position inside an allocated block: the block's
  identity and a byte index from the block's start. Pointer arithmetic moves the index
  and stays within the block's identity.
\<close>

datatype pointer = NULL | Ptr (block: nat) (index: nat)

text \<open>\<^verbatim>\<open>(u8*)p + n\<close>. The source only evaluates it on a pointer it has tested against \<^verbatim>\<open>NULL\<close>.\<close>

fun ptr_add :: "pointer \<Rightarrow> nat \<Rightarrow> pointer" where
  "ptr_add NULL n = NULL"
| "ptr_add (Ptr b i) n = Ptr b (i + n)"

text \<open>Calls that leave the RomFS code: the allocator and the section reader.\<close>

datatype call = CallFree pointer | CallMalloc u64 | CallRead u64 u64

text \<open>
  The heap maps a block identity to the block's bytes while the block is allocated;
  \<open>calls\<close> records the external calls in the order they were made.
\<close>

record heap =
  blocks :: "nat \<Rightarrow> u8 list option"
  next_block :: nat
  calls :: "call list"

text \<open>\<^verbatim>\<open>free(p)\<close>: the block is gone and the call is on record.\<close>

definition free :: "pointer \<Rightarrow> heap \<Rightarrow> heap" where
  "free p h =
     h\<lparr>blocks := (case p of NULL \<Rightarrow> blocks h | Ptr b i \<Rightarrow> (blocks h)(b := None)),
       calls := calls h @ [CallFree p]\<rparr>"

subsection \<open>Data structures of romfs.h\<close>

definition ROMFS_OLD_HEADER_SIZE :: nat where "ROMFS_OLD_HEADER_SIZE = 0x28"
definition ROMFS_HEADER_SIZE :: nat where "ROMFS_HEADER_SIZE = 0x50"
definition ROMFS_VOID_ENTRY :: u32 where "ROMFS_VOID_ENTRY = 0xFFFFFFFF"

text \<open>\<^verbatim>\<open>RomFileSystemInformationOld\<close>: ten \<^verbatim>\<open>u32\<close> fields.\<close>

record RomFileSystemInformationOld =
  old_header_size :: u32
  old_directory_bucket_offset :: u32
  old_directory_bucket_size :: u32
  old_directory_entry_offset :: u32
  old_directory_entry_size :: u32
  old_file_bucket_offset :: u32
  old_file_bucket_size :: u32
  old_file_entry_offset :: u32
  old_file_entry_size :: u32
  old_body_offset :: u32

text \<open>
  \<^verbatim>\<open>RomFileSystemInformation\<close>: the same ten fields as \<^verbatim>\<open>u64\<close>. The field
  names carry the prefix of the union member they are read through (\<^verbatim>\<open>old_format\<close>,
  \<^verbatim>\<open>cur_format\<close>).
\<close>

record RomFileSystemInformation =
  cur_header_size :: u64
  cur_directory_bucket_offset :: u64
  cur_directory_bucket_size :: u64
  cur_directory_entry_offset :: u64
  cur_directory_entry_size :: u64
  cur_file_bucket_offset :: u64
  cur_file_bucket_size :: u64
  cur_file_entry_offset :: u64
  cur_file_entry_size :: u64
  cur_body_offset :: u64

text \<open>
  \<^verbatim>\<open>RomFileSystemDirectoryEntry\<close>: six \<^verbatim>\<open>u32\<close> fields followed by the flexible
  array member \<^verbatim>\<open>name\<close>, which adds nothing to \<^verbatim>\<open>sizeof\<close>: 6 * 4 = 24 bytes.
\<close>

record RomFileSystemDirectoryEntry =
  d_parent_offset :: u32
  d_next_offset :: u32
  directory_offset :: u32
  file_offset :: u32
  d_bucket_offset :: u32
  d_name_length :: u32

definition sizeof_RomFileSystemDirectoryEntry :: u64 where
  "sizeof_RomFileSystemDirectoryEntry = 24"

text \<open>
  \<^verbatim>\<open>RomFileSystemFileEntry\<close>: \<^verbatim>\<open>u32 u32 u64 u64 u32 u32\<close> and the flexible array
  member; no padding is needed (the \<^verbatim>\<open>u64\<close> fields sit at 8 and 16, and 32 is a
  multiple of the alignment 8): 32 bytes.
\<close>

record RomFileSystemFileEntry =
  f_parent_offset :: u32
  f_next_offset :: u32
  f_offset :: u64
  f_size :: u64
  f_bucket_offset :: u32
  f_name_length :: u32

definition sizeof_RomFileSystemFileEntry :: u64 where
  "sizeof_RomFileSystemFileEntry = 32"

text \<open>
  \<^verbatim>\<open>RomFileSystemContext\<close>. The field \<open>header\<close> holds the bytes of the union
  \<^verbatim>\<open>RomFileSystemHeader\<close> (0x50 of them); \<^verbatim>\<open>offset\<close> and \<^verbatim>\<open>size\<close> are
  \<open>ctx_offset\<close> and \<open>ctx_size\<close>.
\<close>

record RomFileSystemContext =
  nca_fs_ctx :: pointer
  sha256_hash_info :: pointer
  integrity_hash_info :: pointer
  ctx_offset :: u64
  ctx_size :: u64
  header :: "u8 list"
  dir_table_size :: u64
  dir_table :: pointer
  file_table_size :: u64
  file_table :: pointer
  body_offset :: u64

text \<open>What \<^verbatim>\<open>memset(ctx, 0, sizeof(RomFileSystemContext))\<close> leaves behind.\<close>

definition zeroed_context :: RomFileSystemContext where
  "zeroed_context =
     \<lparr>nca_fs_ctx = NULL, sha256_hash_info = NULL, integrity_hash_info = NULL,
      ctx_offset = 0, ctx_size = 0, header = replicate ROMFS_HEADER_SIZE 0,
      dir_table_size = 0, dir_table = NULL, file_table_size = 0, file_table = NULL,
      body_offset = 0\<rparr>"

subsection \<open>The inline functions of romfs.h\<close>

text \<open>
  \<^verbatim>\<open>romfsFreeContext\<close>. The argument \<open>ctx\<close> is the pointer to the context:
  \<open>None\<close> for \<^verbatim>\<open>NULL\<close>, \<open>Some c\<close> for a pointer to a context holding \<open>c\<close>; the
  function returns what the pointer refers to afterwards, and the heap.
\<close>

definition romfsFreeContext ::
  "RomFileSystemContext option \<Rightarrow> heap \<Rightarrow> RomFileSystemContext option \<times> heap" where
  "romfsFreeContext ctx h =
     (case ctx of
        None \<Rightarrow> (None, h)
      | Some c \<Rightarrow>
          let h1 = (if dir_table c \<noteq> NULL then free (dir_table c) h else h);
              h2 = (if file_table c \<noteq> NULL then free (file_table c) h1 else h1)
          in (Some zeroed_context, h2))"

text \<open>
  \<^verbatim>\<open>romfsGetDirectoryEntry\<close>. In \<^verbatim>\<open>dir_entry_offset + sizeof(...)\<close> the \<^verbatim>\<open>u32\<close>
  operand is converted to \<^verbatim>\<open>size_t\<close>, so the sum and the comparison with the
  \<^verbatim>\<open>u64\<close> table size are 64-bit.
\<close>

definition romfsGetDirectoryEntry :: "RomFileSystemContext option \<Rightarrow> u32 \<Rightarrow> pointer" where
  "romfsGetDirectoryEntry ctx dir_entry_offset =
     (case ctx of
        None \<Rightarrow> NULL
      | Some c \<Rightarrow>
          if dir_table c = NULL
             \<or> ucast dir_entry_offset + sizeof_RomFileSystemDirectoryEntry > dir_table_size c
          then NULL
          else ptr_add (dir_table c) (unat dir_entry_offset))"

definition romfsGetFileEntry :: "RomFileSystemContext option \<Rightarrow> u32 \<Rightarrow> pointer" where
  "romfsGetFileEntry ctx file_entry_offset =
     (case ctx of
        None \<Rightarrow> NULL
      | Some c \<Rightarrow>
          if file_table c = NULL
             \<or> ucast file_entry_offset + sizeof_RomFileSystemFileEntry > file_table_size c
          then NULL
          else ptr_add (file_table c) (unat file_entry_offset))"


subsection \<open>Reading entries through a pointer\<close>

text \<open>Multi-byte fields are little endian.\<close>

fun le_nat :: "u8 list \<Rightarrow> nat" where
  "le_nat [] = 0"
| "le_nat (b # bs) = unat b + 256 * le_nat bs"

definition le32 :: "u8 list \<Rightarrow> nat \<Rightarrow> u32" where
  "le32 bs k = word_of_nat (le_nat (take 4 (drop k bs)))"

definition le64 :: "u8 list \<Rightarrow> nat \<Rightarrow> u64" where
  "le64 bs k = word_of_nat (le_nat (take 8 (drop k bs)))"

text \<open>
  Reading \<open>n\<close> bytes at a pointer: there is a result only if the pointer is not
  \<^verbatim>\<open>NULL\<close>, its block is allocated and the \<open>n\<close> bytes lie inside the block.
\<close>

definition load_bytes :: "heap \<Rightarrow> pointer \<Rightarrow> nat \<Rightarrow> u8 list option" where
  "load_bytes h p n =
     (case p of
        NULL \<Rightarrow> None
      | Ptr b i \<Rightarrow>
          (case blocks h b of
             None \<Rightarrow> None
           | Some bs \<Rightarrow> if i + n \<le> length bs then Some (take n (drop i bs)) else None))"

text \<open>The fixed part of the two entry structs, field by field at the struct's offsets.\<close>

definition decode_dir_entry :: "u8 list \<Rightarrow> RomFileSystemDirectoryEntry" where
  "decode_dir_entry bs =
     \<lparr>d_parent_offset = le32 bs 0, d_next_offset = le32 bs 4, directory_offset = le32 bs 8,
      file_offset = le32 bs 12, d_bucket_offset = le32 bs 16, d_name_length = le32 bs 20\<rparr>"

definition decode_file_entry :: "u8 list \<Rightarrow> RomFileSystemFileEntry" where
  "decode_file_entry bs =
     \<lparr>f_parent_offset = le32 bs 0, f_next_offset = le32 bs 4, f_offset = le64 bs 8,
      f_size = le64 bs 16, f_bucket_offset = le32 bs 24, f_name_length = le32 bs 28\<rparr>"

definition load_dir_entry :: "heap \<Rightarrow> pointer \<Rightarrow> RomFileSystemDirectoryEntry option" where
  "load_dir_entry h p =
     map_option decode_dir_entry (load_bytes h p (unat sizeof_RomFileSystemDirectoryEntry))"

definition load_file_entry :: "heap \<Rightarrow> pointer \<Rightarrow> RomFileSystemFileEntry option" where
  "load_file_entry h p =
     map_option decode_file_entry (load_bytes h p (unat sizeof_RomFileSystemFileEntry))"

text \<open>
  Modelled from the spec: the name-bounds check that the spec leaves to the code reading
  an entry's name (\<^verbatim>\<open>romfs.h\<close> has no function for it):
  \<^verbatim>\<open>offset + fixed_record_size + name_length \<le> table_size\<close>.
\<close>

definition dir_name_in_bounds :: "RomFileSystemContext \<Rightarrow> u32 \<Rightarrow> u32 \<Rightarrow> bool" where
  "dir_name_in_bounds c off name_length \<longleftrightarrow>
     unat off + unat sizeof_RomFileSystemDirectoryEntry + unat name_length
       \<le> unat (dir_table_size c)"

definition file_name_in_bounds :: "RomFileSystemContext \<Rightarrow> u32 \<Rightarrow> u32 \<Rightarrow> bool" where
  "file_name_in_bounds c off name_length \<longleftrightarrow>
     unat off + unat sizeof_RomFileSystemFileEntry + unat name_length
       \<le> unat (file_table_size c)"

section \<open>The functions declared in romfs.h\<close>

text \<open>
  \<^verbatim>\<open>romfs.h\<close> declares \<^verbatim>\<open>romfsInitializeContext\<close>,
  \<^verbatim>\<open>romfsReadFileSystemData\<close>, \<^verbatim>\<open>romfsReadFileEntryData\<close>,
  \<^verbatim>\<open>romfsGetTotalDataSize\<close> and \<^verbatim>\<open>romfsGetDirectoryDataSize\<close>; their bodies
  and the section reader of \<^verbatim>\<open>nca.h\<close> are not among the sources. The definitions of
  this section follow the specification's description of them.
\<close>

text \<open>
  Modelled from the spec: the errors of the missing functions, after the specification's
  taxonomy. \<open>MemoryFault\<close> is not one of them: it is the outcome of reading through a
  pointer outside an allocated block, which C leaves undefined.
\<close>

datatype error = FormatError | BoundsError | RangeError | IOError | TraversalError | MemoryFault

subsection \<open>The two views of the header union\<close>

text \<open>
  \<^verbatim>\<open>RomFileSystemHeader\<close> overlays \<^verbatim>\<open>old_format\<close> (ten \<^verbatim>\<open>u32\<close> at offsets
  0, 4, ..., 36, followed by 0x28 bytes of padding) and \<^verbatim>\<open>cur_format\<close> (ten \<^verbatim>\<open>u64\<close>
  at offsets 0, 8, ..., 72) on the same 0x50 bytes.
\<close>

definition old_format :: "u8 list \<Rightarrow> RomFileSystemInformationOld" where
  "old_format hdr =
     \<lparr>old_header_size = le32 hdr 0, old_directory_bucket_offset = le32 hdr 4,
      old_directory_bucket_size = le32 hdr 8, old_directory_entry_offset = le32 hdr 12,
      old_directory_entry_size = le32 hdr 16, old_file_bucket_offset = le32 hdr 20,
      old_file_bucket_size = le32 hdr 24, old_file_entry_offset = le32 hdr 28,
      old_file_entry_size = le32 hdr 32, old_body_offset = le32 hdr 36\<rparr>"

definition cur_format :: "u8 list \<Rightarrow> RomFileSystemInformation" where
  "cur_format hdr =
     \<lparr>cur_header_size = le64 hdr 0, cur_directory_bucket_offset = le64 hdr 8,
      cur_directory_bucket_size = le64 hdr 16, cur_directory_entry_offset = le64 hdr 24,
      cur_directory_entry_size = le64 hdr 32, cur_file_bucket_offset = le64 hdr 40,
      cur_file_bucket_size = le64 hdr 48, cur_file_entry_offset = le64 hdr 56,
      cur_file_entry_size = le64 hdr 64, cur_body_offset = le64 hdr 72\<rparr>"

subsection \<open>Header Parser\<close>

text \<open>Modelled from the spec: the tag that says which of the two layouts was read.\<close>

datatype layout = Legacy | Current

text \<open>
  Modelled from the spec: the normalized header. The legacy fields in the 64-bit shape,
  each zero-extended.
\<close>

definition widen_old_format :: "RomFileSystemInformationOld \<Rightarrow> RomFileSystemInformation" where
  "widen_old_format i =
     \<lparr>cur_header_size = ucast (old_header_size i),
      cur_directory_bucket_offset = ucast (old_directory_bucket_offset i),
      cur_directory_bucket_size = ucast (old_directory_bucket_size i),
      cur_directory_entry_offset = ucast (old_directory_entry_offset i),
      cur_directory_entry_size = ucast (old_directory_entry_size i),
      cur_file_bucket_offset = ucast (old_file_bucket_offset i),
      cur_file_bucket_size = ucast (old_file_bucket_size i),
      cur_file_entry_offset = ucast (old_file_entry_offset i),
      cur_file_entry_size = ucast (old_file_entry_size i),
      cur_body_offset = ucast (old_body_offset i)\<rparr>"

text \<open>
  Modelled from the spec: the Header Parser, a step of \<^verbatim>\<open>romfsInitializeContext\<close>
  (declared in \<^verbatim>\<open>romfs.h\<close>, body missing). If the 32-bit header-size field equals
  the legacy constant, the region is legacy and the 32-bit fields are extracted;
  otherwise, if the 64-bit header-size field equals the current constant, the 64-bit
  fields are; any other value is a format error. The result has the 64-bit shape.
\<close>

definition parse_header :: "u8 list \<Rightarrow> error + layout \<times> RomFileSystemInformation" where
  "parse_header hdr =
     (if unat (old_header_size (old_format hdr)) = ROMFS_OLD_HEADER_SIZE
      then Inr (Legacy, widen_old_format (old_format hdr))
      else if unat (cur_header_size (cur_format hdr)) = ROMFS_HEADER_SIZE
      then Inr (Current, cur_format hdr)
      else Inl FormatError)"

subsection \<open>Raw Section Reader\<close>

text \<open>
  Modelled from the spec: the Raw Section Reader (the \<^verbatim>\<open>NcaFsSectionContext\<close> of
  \<^verbatim>\<open>nca.h\<close>, missing). \<open>read_section pos len\<close> is the plain read and
  \<open>read_section_verified engine pos len\<close> the read verified by a hash engine; each
  gives the bytes or fails. The reader knows where the RomFS region lies in its section
  and holds the two hash engines.
\<close>

record section_reader =
  read_section :: "u64 \<Rightarrow> u64 \<Rightarrow> u8 list option"
  read_section_verified :: "pointer \<Rightarrow> u64 \<Rightarrow> u64 \<Rightarrow> u8 list option"
  region_offset :: u64
  region_size :: u64
  section_ref :: pointer
  hierarchical_sha256 :: pointer
  hierarchical_integrity :: pointer

text \<open>
  Modelled from the spec: a read delegated to the section reader. It is put on record;
  it is an \<open>IOError\<close> when the reader fails or returns another number of bytes than
  asked for.
\<close>

definition delegated_read ::
  "(u64 \<Rightarrow> u64 \<Rightarrow> u8 list option) \<Rightarrow> u64 \<Rightarrow> u64 \<Rightarrow> heap \<Rightarrow> (error + u8 list) \<times> heap" where
  "delegated_read rd pos len h =
     ((case rd pos len of
         None \<Rightarrow> Inl IOError
       | Some bs \<Rightarrow> if length bs = unat len then Inr bs else Inl IOError),
      h\<lparr>calls := calls h @ [CallRead pos len]\<rparr>)"

text \<open>
  Modelled from the spec: the allocation of a table buffer of the reported size (the
  allocator is not among the sources): a new block of \<open>n\<close> bytes. Running out of
  memory is not modelled.
\<close>

definition malloc :: "u64 \<Rightarrow> heap \<Rightarrow> pointer \<times> heap" where
  "malloc n h =
     (Ptr (next_block h) 0,
      h\<lparr>blocks := (blocks h)(next_block h \<mapsto> replicate (unat n) 0),
        next_block := Suc (next_block h),
        calls := calls h @ [CallMalloc n]\<rparr>)"

text \<open>
  Modelled from the spec: the bytes read become the contents of the buffer allocated
  for them.
\<close>

definition fill :: "pointer \<Rightarrow> u8 list \<Rightarrow> heap \<Rightarrow> heap" where
  "fill p bs h = (case p of NULL \<Rightarrow> h | Ptr b i \<Rightarrow> h\<lparr>blocks := (blocks h)(b \<mapsto> bs)\<rparr>)"

subsection \<open>Initialization: Header Parser and Table Loader\<close>

text \<open>
  Modelled from the spec: \<^verbatim>\<open>romfsInitializeContext\<close> (declared in \<^verbatim>\<open>romfs.h\<close>,
  body missing). Read the first \<^verbatim>\<open>ROMFS_HEADER_SIZE\<close> bytes of the region and parse
  them; a directory table of size zero is a format error, a file table of size zero is
  legal; allocate a buffer for each table and read the table into it, at its offset
  relative to the region. A failed read fails the initialization, and the buffers
  allocated so far are released.
\<close>

definition romfsInitializeContext ::
  "section_reader \<Rightarrow> heap \<Rightarrow> (error + RomFileSystemContext) \<times> heap" where
  "romfsInitializeContext rd h =
     (case delegated_read (read_section rd) (region_offset rd)
             (word_of_nat ROMFS_HEADER_SIZE) h of
        (Inl e, h1) \<Rightarrow> (Inl e, h1)
      | (Inr hdr, h1) \<Rightarrow>
          (case parse_header hdr of
             Inl e \<Rightarrow> (Inl e, h1)
           | Inr (lay, info) \<Rightarrow>
               if cur_directory_entry_size info = 0 then (Inl FormatError, h1)
               else
                 (case malloc (cur_directory_entry_size info) h1 of
                    (dir_p, h2) \<Rightarrow>
                 (case delegated_read (read_section rd)
                         (region_offset rd + cur_directory_entry_offset info)
                         (cur_directory_entry_size info) h2 of
                    (Inl e, h3) \<Rightarrow> (Inl e, free dir_p h3)
                  | (Inr dir_bytes, h3) \<Rightarrow>
                 (case malloc (cur_file_entry_size info) (fill dir_p dir_bytes h3) of
                    (file_p, h4) \<Rightarrow>
                 (case delegated_read (read_section rd)
                         (region_offset rd + cur_file_entry_offset info)
                         (cur_file_entry_size info) h4 of
                    (Inl e, h5) \<Rightarrow> (Inl e, free dir_p (free file_p h5))
                  | (Inr file_bytes, h5) \<Rightarrow>
                      (Inr \<lparr>nca_fs_ctx = section_ref rd,
                            sha256_hash_info =
                              (if lay = Legacy then hierarchical_sha256 rd else NULL),
                            integrity_hash_info =
                              (if lay = Current then hierarchical_integrity rd else NULL),
                            ctx_offset = region_offset rd, ctx_size = region_size rd,
                            header = hdr,
                            dir_table_size = cur_directory_entry_size info, dir_table = dir_p,
                            file_table_size = cur_file_entry_size info, file_table = file_p,
                            body_offset = cur_body_offset info\<rparr>,
                       fill file_p file_bytes h5)))))))"

subsection \<open>Payload Reader\<close>


text \<open>
  Modelled from the spec: \<^verbatim>\<open>romfsReadFileSystemData\<close> (declared in \<^verbatim>\<open>romfs.h\<close>,
  body missing), the read of raw bytes at an offset relative to the RomFS region, with
  the region-bounds check and without the entry-size check.
\<close>

definition romfsReadFileSystemData ::
  "section_reader \<Rightarrow> RomFileSystemContext \<Rightarrow> u64 \<Rightarrow> u64 \<Rightarrow> heap
     \<Rightarrow> (error + u8 list) \<times> heap" where
  "romfsReadFileSystemData rd c read_size offset h =
     (if unat offset + unat read_size > unat (ctx_size c) then (Inl BoundsError, h)
      else delegated_read (read_section rd) (ctx_offset c + offset) read_size h)"


subsection \<open>Size Accountant\<close>

text \<open>
  Modelled from the spec: how the Size Accountant gets the entry at an offset of a
  table. The offset is resolved by the resolver of \<^verbatim>\<open>romfs.h\<close> and the entry read
  through the pointer returned; a \<^verbatim>\<open>NULL\<close> from the resolver is the traversal error.
\<close>

definition get_dir_entry ::
  "heap \<Rightarrow> RomFileSystemContext \<Rightarrow> u32 \<Rightarrow> error + RomFileSystemDirectoryEntry" where
  "get_dir_entry h c off =
     (case romfsGetDirectoryEntry (Some c) off of
        NULL \<Rightarrow> Inl TraversalError
      | Ptr b i \<Rightarrow>
          (case load_dir_entry h (Ptr b i) of None \<Rightarrow> Inl MemoryFault | Some d \<Rightarrow> Inr d))"

definition get_file_entry ::
  "heap \<Rightarrow> RomFileSystemContext \<Rightarrow> u32 \<Rightarrow> error + RomFileSystemFileEntry" where
  "get_file_entry h c off =
     (case romfsGetFileEntry (Some c) off of
        NULL \<Rightarrow> Inl TraversalError
      | Ptr b i \<Rightarrow>
          (case load_file_entry h (Ptr b i) of None \<Rightarrow> Inl MemoryFault | Some f \<Rightarrow> Inr f))"

text \<open>
  Modelled from the spec: the Size Accountant, \<^verbatim>\<open>romfsGetDirectoryDataSize\<close> and
  \<^verbatim>\<open>romfsGetTotalDataSize\<close> (declared in \<^verbatim>\<open>romfs.h\<close>, bodies missing). The size of
  a directory is the sum of the sizes on the chain of files that starts at its
  \<^verbatim>\<open>file_offset\<close> and follows \<^verbatim>\<open>next_offset\<close>, plus the sizes of the directories
  on the chain that starts at its \<^verbatim>\<open>directory_offset\<close> and follows
  \<^verbatim>\<open>next_offset\<close>. A chain ends at \<^verbatim>\<open>ROMFS_VOID_ENTRY\<close>; an offset that does not
  resolve aborts the computation with an error. Sums are \<^verbatim>\<open>u64\<close>.

  Nothing bounds the walk on a cyclic archive, so the functions take fuel: the result
  \<open>None\<close> says that the walk has not come to an end within the fuel given.
\<close>

fun file_chain_size ::
  "nat \<Rightarrow> heap \<Rightarrow> RomFileSystemContext \<Rightarrow> u32 \<Rightarrow> (error + u64) option" where
  "file_chain_size 0 h c off = None"
| "file_chain_size (Suc n) h c off =
     (if off = ROMFS_VOID_ENTRY then Some (Inr 0)
      else
        (case get_file_entry h c off of
           Inl e \<Rightarrow> Some (Inl e)
         | Inr f \<Rightarrow>
             (case file_chain_size n h c (f_next_offset f) of
                None \<Rightarrow> None
              | Some (Inl e) \<Rightarrow> Some (Inl e)
              | Some (Inr rest) \<Rightarrow> Some (Inr (f_size f + rest)))))"

fun romfsGetDirectoryDataSize ::
  "nat \<Rightarrow> heap \<Rightarrow> RomFileSystemContext \<Rightarrow> u32 \<Rightarrow> (error + u64) option"
and dir_chain_size ::
  "nat \<Rightarrow> heap \<Rightarrow> RomFileSystemContext \<Rightarrow> u32 \<Rightarrow> (error + u64) option" where
  "romfsGetDirectoryDataSize 0 h c dir_entry_offset = None"
| "romfsGetDirectoryDataSize (Suc n) h c dir_entry_offset =
     (case get_dir_entry h c dir_entry_offset of
        Inl e \<Rightarrow> Some (Inl e)
      | Inr d \<Rightarrow>
          (case file_chain_size n h c (file_offset d) of
             None \<Rightarrow> None
           | Some (Inl e) \<Rightarrow> Some (Inl e)
           | Some (Inr files) \<Rightarrow>
               (case dir_chain_size n h c (directory_offset d) of
                  None \<Rightarrow> None
                | Some (Inl e) \<Rightarrow> Some (Inl e)
                | Some (Inr children) \<Rightarrow> Some (Inr (files + children)))))"
| "dir_chain_size 0 h c off = None"
| "dir_chain_size (Suc n) h c off =
     (if off = ROMFS_VOID_ENTRY then Some (Inr 0)
      else
        (case get_dir_entry h c off of
           Inl e \<Rightarrow> Some (Inl e)
         | Inr d \<Rightarrow>
             (case romfsGetDirectoryDataSize n h c off of
                None \<Rightarrow> None
              | Some (Inl e) \<Rightarrow> Some (Inl e)
              | Some (Inr child) \<Rightarrow>
                  (case dir_chain_size n h c (d_next_offset d) of
                     None \<Rightarrow> None
                   | Some (Inl e) \<Rightarrow> Some (Inl e)
                   | Some (Inr rest) \<Rightarrow> Some (Inr (child + rest))))))"

text \<open>
  Modelled from the spec: \<^verbatim>\<open>romfsGetTotalDataSize\<close>. The total size is the size of
  the root directory, the directory entry at offset 0.
\<close>

definition romfsGetTotalDataSize ::
  "nat \<Rightarrow> heap \<Rightarrow> RomFileSystemContext \<Rightarrow> (error + u64) option" where
  "romfsGetTotalDataSize n h c = romfsGetDirectoryDataSize n h c 0"

section \<open>What an archive contains\<close>

text \<open>
  The walk of a well-formed archive, as a relation: \<open>file_chain h c off fs\<close> says that
  the chain of files starting at \<open>off\<close> resolves entry by entry and reaches
  \<^verbatim>\<open>ROMFS_VOID_ENTRY\<close>, and that \<open>fs\<close> are its offsets in order.
\<close>

inductive file_chain :: "heap \<Rightarrow> RomFileSystemContext \<Rightarrow> u32 \<Rightarrow> u32 list \<Rightarrow> bool"
  for h c where
  file_chain_end: "file_chain h c ROMFS_VOID_ENTRY []"
| file_chain_link:
    "off \<noteq> ROMFS_VOID_ENTRY \<Longrightarrow> get_file_entry h c off = Inr f \<Longrightarrow>
     file_chain h c (f_next_offset f) fs \<Longrightarrow> file_chain h c off (off # fs)"

text \<open>
  \<open>directory_files h c off fs\<close>: the directory at \<open>off\<close> and everything below it
  resolves, every chain reaches \<^verbatim>\<open>ROMFS_VOID_ENTRY\<close>, and \<open>fs\<close> are the offsets of
  the files met, one for each time a file is met. \<open>sibling_files\<close> is the same for the
  chain of directories starting at an offset.
\<close>

inductive directory_files :: "heap \<Rightarrow> RomFileSystemContext \<Rightarrow> u32 \<Rightarrow> u32 list \<Rightarrow> bool"
  and sibling_files :: "heap \<Rightarrow> RomFileSystemContext \<Rightarrow> u32 \<Rightarrow> u32 list \<Rightarrow> bool"
  for h c where
  directory_filesI:
    "get_dir_entry h c off = Inr d \<Longrightarrow> file_chain h c (file_offset d) fs \<Longrightarrow>
     sibling_files h c (directory_offset d) gs \<Longrightarrow> directory_files h c off (fs @ gs)"
| sibling_files_end: "sibling_files h c ROMFS_VOID_ENTRY []"
| sibling_files_link:
    "off \<noteq> ROMFS_VOID_ENTRY \<Longrightarrow> get_dir_entry h c off = Inr d \<Longrightarrow>
     directory_files h c off fs \<Longrightarrow> sibling_files h c (d_next_offset d) gs \<Longrightarrow>
     sibling_files h c off (fs @ gs)"

text \<open>
  The links of the archive as a graph, with nothing said about where they lead:
  \<open>file_linked h c s f\<close> says that the file offset \<open>f\<close> is on the chain that starts
  at \<open>s\<close>; \<open>dir_linked h c s d\<close> that the directory offset \<open>d\<close> is on the chain that
  starts at \<open>s\<close> or below a directory of that chain.
\<close>

inductive file_linked :: "heap \<Rightarrow> RomFileSystemContext \<Rightarrow> u32 \<Rightarrow> u32 \<Rightarrow> bool"
  for h c s where
  file_linked_first: "s \<noteq> ROMFS_VOID_ENTRY \<Longrightarrow> file_linked h c s s"
| file_linked_next:
    "file_linked h c s f \<Longrightarrow> get_file_entry h c f = Inr e \<Longrightarrow>
     f_next_offset e \<noteq> ROMFS_VOID_ENTRY \<Longrightarrow> file_linked h c s (f_next_offset e)"

inductive dir_linked :: "heap \<Rightarrow> RomFileSystemContext \<Rightarrow> u32 \<Rightarrow> u32 \<Rightarrow> bool"
  for h c s where
  dir_linked_first: "s \<noteq> ROMFS_VOID_ENTRY \<Longrightarrow> dir_linked h c s s"
| dir_linked_next:
    "dir_linked h c s d \<Longrightarrow> get_dir_entry h c d = Inr e \<Longrightarrow>
     d_next_offset e \<noteq> ROMFS_VOID_ENTRY \<Longrightarrow> dir_linked h c s (d_next_offset e)"
| dir_linked_child:
    "dir_linked h c s d \<Longrightarrow> get_dir_entry h c d = Inr e \<Longrightarrow>
     directory_offset e \<noteq> ROMFS_VOID_ENTRY \<Longrightarrow> dir_linked h c s (directory_offset e)"

text \<open>The directories reachable from a directory: itself and those linked below it.\<close>

definition reachable_directories :: "heap \<Rightarrow> RomFileSystemContext \<Rightarrow> u32 \<Rightarrow> u32 set" where
  "reachable_directories h c r =
     insert r {d. \<exists>e. get_dir_entry h c r = Inr e \<and> dir_linked h c (directory_offset e) d}"

text \<open>The files of one directory, and the files reachable from a directory.\<close>

definition files_of :: "heap \<Rightarrow> RomFileSystemContext \<Rightarrow> u32 \<Rightarrow> u32 set" where
  "files_of h c d = {f. \<exists>e. get_dir_entry h c d = Inr e \<and> file_linked h c (file_offset e) f}"

definition reachable_files :: "heap \<Rightarrow> RomFileSystemContext \<Rightarrow> u32 \<Rightarrow> u32 set" where
  "reachable_files h c r = (\<Union>d \<in> reachable_directories h c r. files_of h c d)"

text \<open>The declared size of the file entry at an offset.\<close>

definition file_size_at :: "heap \<Rightarrow> RomFileSystemContext \<Rightarrow> u32 \<Rightarrow> u64" where
  "file_size_at h c off = (case get_file_entry h c off of Inl e \<Rightarrow> 0 | Inr f \<Rightarrow> f_size f)"

text \<open>
  The walk that meets an offset which does not resolve: \<open>file_chain_breaks\<close> for a
  chain of files, \<open>directory_breaks\<close> for a directory, \<open>siblings_break\<close> for a chain
  of directories. What comes before the failing offset resolves and ends.
\<close>

inductive file_chain_breaks :: "heap \<Rightarrow> RomFileSystemContext \<Rightarrow> u32 \<Rightarrow> bool"
  for h c where
  file_breaks_here:
    "off \<noteq> ROMFS_VOID_ENTRY \<Longrightarrow> romfsGetFileEntry (Some c) off = NULL \<Longrightarrow>
     file_chain_breaks h c off"
| file_breaks_later:
    "off \<noteq> ROMFS_VOID_ENTRY \<Longrightarrow> get_file_entry h c off = Inr f \<Longrightarrow>
     file_chain_breaks h c (f_next_offset f) \<Longrightarrow> file_chain_breaks h c off"

inductive directory_breaks :: "heap \<Rightarrow> RomFileSystemContext \<Rightarrow> u32 \<Rightarrow> bool"
  and siblings_break :: "heap \<Rightarrow> RomFileSystemContext \<Rightarrow> u32 \<Rightarrow> bool"
  for h c where
  directory_breaks_here:
    "romfsGetDirectoryEntry (Some c) off = NULL \<Longrightarrow> directory_breaks h c off"
| directory_breaks_files:
    "get_dir_entry h c off = Inr d \<Longrightarrow> file_chain_breaks h c (file_offset d) \<Longrightarrow>
     directory_breaks h c off"
| directory_breaks_children:
    "get_dir_entry h c off = Inr d \<Longrightarrow> file_chain h c (file_offset d) fs \<Longrightarrow>
     siblings_break h c (directory_offset d) \<Longrightarrow> directory_breaks h c off"
| siblings_break_here:
    "off \<noteq> ROMFS_VOID_ENTRY \<Longrightarrow> romfsGetDirectoryEntry (Some c) off = NULL \<Longrightarrow>
     siblings_break h c off"
| siblings_break_inside:
    "off \<noteq> ROMFS_VOID_ENTRY \<Longrightarrow> get_dir_entry h c off = Inr d \<Longrightarrow>
     directory_breaks h c off \<Longrightarrow> siblings_break h c off"
| siblings_break_later:
    "off \<noteq> ROMFS_VOID_ENTRY \<Longrightarrow> get_dir_entry h c off = Inr d \<Longrightarrow>
     directory_files h c off fs \<Longrightarrow> siblings_break h c (d_next_offset d) \<Longrightarrow>
     siblings_break h c off"

text \<open>The links out of the entries that resolve, as relations on offsets.\<close>

definition file_links :: "heap \<Rightarrow> RomFileSystemContext \<Rightarrow> (u32 \<times> u32) set" where
  "file_links h c =
     {(f, g). \<exists>e. get_file_entry h c f = Inr e \<and> g = f_next_offset e \<and> g \<noteq> ROMFS_VOID_ENTRY}"

definition dir_links :: "heap \<Rightarrow> RomFileSystemContext \<Rightarrow> (u32 \<times> u32) set" where
  "dir_links h c =
     {(d, x). \<exists>e. get_dir_entry h c d = Inr e \<and> x \<noteq> ROMFS_VOID_ENTRY
                \<and> (x = directory_offset e \<or> x = d_next_offset e)}"

subsection \<open>Concrete contexts and heaps\<close>

text \<open>A context with a 0x30-byte directory table and a 0x40-byte file table.\<close>

definition small_context :: RomFileSystemContext where
  "small_context = zeroed_context\<lparr>dir_table := Ptr 0 0, dir_table_size := 0x30,
      file_table := Ptr 1 0, file_table_size := 0x40\<rparr>"

text \<open>A context whose directory table has 0xFFFFFFFF + 24 bytes.\<close>

definition huge_dir_table_context :: RomFileSystemContext where
  "huge_dir_table_context =
     zeroed_context\<lparr>dir_table := Ptr 0 0, dir_table_size := 0x100000017\<rparr>"

text \<open>
  Tables that end right after the fixed part of their only entry, while the entry
  announces a name of 8 (directory) and 4 (file) bytes.
\<close>

definition truncated_tables_heap :: heap where
  "truncated_tables_heap =
     \<lparr>blocks = (\<lambda>b. if b = 0 then Some
          [0,0,0,0, 0xFF,0xFF,0xFF,0xFF, 0xFF,0xFF,0xFF,0xFF, 0xFF,0xFF,0xFF,0xFF,
           0xFF,0xFF,0xFF,0xFF, 8,0,0,0]
        else if b = 1 then Some
          [0,0,0,0, 0xFF,0xFF,0xFF,0xFF, 0,0,0,0,0,0,0,0, 5,0,0,0,0,0,0,0,
           0xFF,0xFF,0xFF,0xFF, 4,0,0,0]
        else None),
      next_block = 2, calls = []\<rparr>"

definition truncated_tables_context :: RomFileSystemContext where
  "truncated_tables_context = zeroed_context\<lparr>dir_table := Ptr 0 0, dir_table_size := 24,
      file_table := Ptr 1 0, file_table_size := 32\<rparr>"


text \<open>Headers: legacy, current with an empty file table, current with an empty directory table.\<close>

definition legacy_header :: "u8 list" where
  "legacy_header =
     [0x28,0,0,0, 0x28,0,0,0, 4,0,0,0, 0x2C,0,0,0, 0x18,0,0,0,
      0x44,0,0,0, 4,0,0,0, 0x48,0,0,0, 0,0,0,0, 0x48,0,0,0] @ replicate 40 0"

definition current_header :: "u8 list" where
  "current_header =
     [0x50,0,0,0,0,0,0,0, 0x50,0,0,0,0,0,0,0, 4,0,0,0,0,0,0,0, 0x54,0,0,0,0,0,0,0,
      0x18,0,0,0,0,0,0,0, 0x6C,0,0,0,0,0,0,0, 4,0,0,0,0,0,0,0, 0x70,0,0,0,0,0,0,0,
      0,0,0,0,0,0,0,0, 0x70,0,0,0,0,0,0,0]"

definition no_directories_header :: "u8 list" where
  "no_directories_header =
     [0x50,0,0,0,0,0,0,0, 0x50,0,0,0,0,0,0,0, 4,0,0,0,0,0,0,0, 0x54,0,0,0,0,0,0,0,
      0,0,0,0,0,0,0,0, 0x54,0,0,0,0,0,0,0, 4,0,0,0,0,0,0,0, 0x58,0,0,0,0,0,0,0,
      0x20,0,0,0,0,0,0,0, 0x78,0,0,0,0,0,0,0]"

text \<open>A directory table with the root directory alone: no files, no children.\<close>

definition root_only_dir_table :: "u8 list" where
  "root_only_dir_table =
     [0,0,0,0, 0xFF,0xFF,0xFF,0xFF, 0xFF,0xFF,0xFF,0xFF, 0xFF,0xFF,0xFF,0xFF,
      0xFF,0xFF,0xFF,0xFF, 0,0,0,0]"

text \<open>Section readers over a region that starts at offset 0 of its section.\<close>

definition reader_of :: "(u64 \<Rightarrow> u64 \<Rightarrow> u8 list option) \<Rightarrow> section_reader" where
  "reader_of f =
     \<lparr>read_section = f, read_section_verified = (\<lambda>engine. f),
      region_offset = 0, region_size = 0x1000, section_ref = Ptr 100 0,
      hierarchical_sha256 = Ptr 101 0, hierarchical_integrity = Ptr 102 0\<rparr>"

definition empty_archive_reader :: section_reader where
  "empty_archive_reader = reader_of (\<lambda>pos len.
      if pos = 0 \<and> len = 0x50 then Some current_header
      else if pos = 0x54 \<and> len = 0x18 then Some root_only_dir_table
      else if len = 0 then Some [] else None)"

definition no_directories_reader :: section_reader where
  "no_directories_reader = reader_of (\<lambda>pos len.
      if pos = 0 \<and> len = 0x50 then Some no_directories_header
      else Some (replicate (unat len) 0))"

definition zero_header_reader :: section_reader where
  "zero_header_reader = reader_of (\<lambda>pos len. Some (replicate (unat len) 0))"

definition empty_heap :: heap where
  "empty_heap = \<lparr>blocks = (\<lambda>b. None), next_block = 0, calls = []\<rparr>"








text \<open>
  An archive: the root directory at 0 with the files at 0 (10 bytes) and 0x24 (20 bytes)
  and the directory at 0x18, which has the file at 0x48 (30 bytes). In the broken file
  table the file at 0x24 names 0x1000 as its next sibling.
\<close>

definition sample_dir_table :: "u8 list" where
  "sample_dir_table =
     [0,0,0,0, 0xFF,0xFF,0xFF,0xFF, 0x18,0,0,0, 0,0,0,0, 0xFF,0xFF,0xFF,0xFF, 0,0,0,0,
      0,0,0,0, 0xFF,0xFF,0xFF,0xFF, 0xFF,0xFF,0xFF,0xFF, 0x48,0,0,0, 0xFF,0xFF,0xFF,0xFF,
      3,0,0,0, 0x73,0x75,0x62,0]"

definition sample_file_table :: "u8 list" where
  "sample_file_table =
     [0,0,0,0, 0x24,0,0,0, 0,0,0,0,0,0,0,0, 10,0,0,0,0,0,0,0, 0xFF,0xFF,0xFF,0xFF,
      1,0,0,0, 0x61,0,0,0,
      0,0,0,0, 0xFF,0xFF,0xFF,0xFF, 16,0,0,0,0,0,0,0, 20,0,0,0,0,0,0,0, 0xFF,0xFF,0xFF,0xFF,
      1,0,0,0, 0x62,0,0,0,
      0x18,0,0,0, 0xFF,0xFF,0xFF,0xFF, 48,0,0,0,0,0,0,0, 30,0,0,0,0,0,0,0, 0xFF,0xFF,0xFF,0xFF,
      1,0,0,0, 0x63,0,0,0]"

definition broken_file_table :: "u8 list" where
  "broken_file_table =
     [0,0,0,0, 0x24,0,0,0, 0,0,0,0,0,0,0,0, 10,0,0,0,0,0,0,0, 0xFF,0xFF,0xFF,0xFF,
      1,0,0,0, 0x61,0,0,0,
      0,0,0,0, 0,0x10,0,0, 16,0,0,0,0,0,0,0, 20,0,0,0,0,0,0,0, 0xFF,0xFF,0xFF,0xFF,
      1,0,0,0, 0x62,0,0,0,
      0x18,0,0,0, 0xFF,0xFF,0xFF,0xFF, 48,0,0,0,0,0,0,0, 30,0,0,0,0,0,0,0, 0xFF,0xFF,0xFF,0xFF,
      1,0,0,0, 0x63,0,0,0]"

definition heap_of_tables :: "u8 list \<Rightarrow> u8 list \<Rightarrow> heap" where
  "heap_of_tables dirs files =
     \<lparr>blocks = (\<lambda>b. if b = 0 then Some dirs else if b = 1 then Some files else None),
      next_block = 2, calls = []\<rparr>"

definition sample_heap :: heap where
  "sample_heap = heap_of_tables sample_dir_table sample_file_table"

definition broken_heap :: heap where
  "broken_heap = heap_of_tables sample_dir_table broken_file_table"

definition sample_context :: RomFileSystemContext where
  "sample_context = zeroed_context\<lparr>dir_table := Ptr 0 0, dir_table_size := 52,
      file_table := Ptr 1 0, file_table_size := 108\<rparr>"

section \<open>Entry resolution\<close>

lemma unat_ucast_32_64: "unat (ucast (x::u32) :: u64) = unat x"
proof -
  have "unat x < 2 ^ 32" using unsigned_less [of x, where 'a=nat] by simp
  then have "unat x < 2 ^ 64" by simp
  then show ?thesis by (simp add: unsigned_ucast_eq take_bit_nat_eq_self)
qed

text \<open>A 32-bit offset plus a small constant does not wrap in 64 bits.\<close>

lemma unat_offset_plus:
  fixes x :: u32
  assumes "n < 2 ^ 32"
  shows "unat ((ucast x :: u64) + word_of_nat n) = unat x + n"
proof -
  have "unat x < 2 ^ 32" using unsigned_less [of x, where 'a=nat] by simp
  with assms have "unat x + n < 2 ^ 64" by simp
  moreover have "unat (word_of_nat n :: u64) = n"
    using assms by (simp add: unat_of_nat)
  ultimately show ?thesis
    by (simp add: unat_word_ariths unat_ucast_32_64)
qed

lemma dir_check_nat:
  "(ucast (x::u32) + sizeof_RomFileSystemDirectoryEntry > (s::u64))
     \<longleftrightarrow> unat x + 24 > unat s"
  using unat_offset_plus [of 24 x]
  by (simp add: sizeof_RomFileSystemDirectoryEntry_def word_less_nat_alt)

lemma file_check_nat:
  "(ucast (x::u32) + sizeof_RomFileSystemFileEntry > (s::u64))
     \<longleftrightarrow> unat x + 32 > unat s"
  using unat_offset_plus [of 32 x]
  by (simp add: sizeof_RomFileSystemFileEntry_def word_less_nat_alt)

lemma romfsGetDirectoryEntry_nat:
  "romfsGetDirectoryEntry (Some c) x =
     (if dir_table c = NULL \<or> unat x + 24 > unat (dir_table_size c) then NULL
      else ptr_add (dir_table c) (unat x))"
  unfolding romfsGetDirectoryEntry_def dir_check_nat by simp

lemma romfsGetFileEntry_nat:
  "romfsGetFileEntry (Some c) x =
     (if file_table c = NULL \<or> unat x + 32 > unat (file_table_size c) then NULL
      else ptr_add (file_table c) (unat x))"
  unfolding romfsGetFileEntry_def file_check_nat by simp

lemma unat_ROMFS_VOID_ENTRY: "unat ROMFS_VOID_ENTRY = 0xFFFFFFFF"
  by (simp add: ROMFS_VOID_ENTRY_def)

lemma ptr_add_eq_NULL [simp]: "ptr_add p n = NULL \<longleftrightarrow> p = NULL"
  by (cases p) simp_all

text \<open>
  C1. For a context whose table is loaded, \<^verbatim>\<open>romfsGetDirectoryEntry\<close> returns
  \<^verbatim>\<open>NULL\<close> when the offset plus the 24 bytes of the fixed directory record exceeds
  the table size, and the pointer \<open>offset\<close> bytes past the table's base otherwise;
  \<^verbatim>\<open>romfsGetFileEntry\<close> does the same with the 32 bytes of the fixed file record.
  The sums are those of the natural numbers: nothing wraps.
\<close>

theorem entry_resolution_is_bounds_check:
  "(dir_table c \<noteq> NULL \<longrightarrow>
      romfsGetDirectoryEntry (Some c) x =
        (if unat x + 24 > unat (dir_table_size c) then NULL
         else ptr_add (dir_table c) (unat x)))
   \<and> (file_table c \<noteq> NULL \<longrightarrow>
      romfsGetFileEntry (Some c) x =
        (if unat x + 32 > unat (file_table_size c) then NULL
         else ptr_add (file_table c) (unat x)))"
  by (simp add: romfsGetDirectoryEntry_def romfsGetFileEntry_def dir_check_nat file_check_nat)

theorem entry_resolution_is_bounds_check_witness:
  "dir_table small_context \<noteq> NULL \<and> file_table small_context \<noteq> NULL
   \<and> romfsGetDirectoryEntry (Some small_context) 24 = Ptr 0 24
   \<and> romfsGetDirectoryEntry (Some small_context) 25 = NULL
   \<and> romfsGetFileEntry (Some small_context) 32 = Ptr 1 32
   \<and> romfsGetFileEntry (Some small_context) 33 = NULL"
  using entry_resolution_is_bounds_check [of small_context 24]
    entry_resolution_is_bounds_check [of small_context 25]
    entry_resolution_is_bounds_check [of small_context 32]
    entry_resolution_is_bounds_check [of small_context 33]
  by (simp add: small_context_def zeroed_context_def)

text \<open>
  C2, as stated, fails: with a loaded directory table of 0xFFFFFFFF + 24 = 0x100000017
  bytes, a nonzero 64-bit size, the offset \<^verbatim>\<open>ROMFS_VOID_ENTRY\<close> passes the bounds
  check and \<^verbatim>\<open>romfsGetDirectoryEntry\<close> returns a pointer into the table.
\<close>

theorem void_entry_resolves_in_huge_table:
  "dir_table huge_dir_table_context \<noteq> NULL
   \<and> dir_table_size huge_dir_table_context \<noteq> 0
   \<and> romfsGetDirectoryEntry (Some huge_dir_table_context) ROMFS_VOID_ENTRY
       = Ptr 0 0xFFFFFFFF"
  by (simp add: huge_dir_table_context_def zeroed_context_def romfsGetDirectoryEntry_def
      ROMFS_VOID_ENTRY_def sizeof_RomFileSystemDirectoryEntry_def)

text \<open>
  C2, amended. For a context whose table is loaded, \<^verbatim>\<open>ROMFS_VOID_ENTRY\<close> resolves
  to \<^verbatim>\<open>NULL\<close> exactly when the table size is below 0xFFFFFFFF plus the fixed record
  size: below 0x100000017 for the directory table, below 0x10000001F for the file table.
\<close>

theorem void_entry_resolves_to_NULL_iff:
  "(dir_table c \<noteq> NULL \<longrightarrow>
      (romfsGetDirectoryEntry (Some c) ROMFS_VOID_ENTRY = NULL
         \<longleftrightarrow> unat (dir_table_size c) < 0x100000017))
   \<and> (file_table c \<noteq> NULL \<longrightarrow>
      (romfsGetFileEntry (Some c) ROMFS_VOID_ENTRY = NULL
         \<longleftrightarrow> unat (file_table_size c) < 0x10000001F))"
  by (simp add: romfsGetDirectoryEntry_nat romfsGetFileEntry_nat unat_ROMFS_VOID_ENTRY)

theorem void_entry_resolves_to_NULL_iff_witness:
  "dir_table small_context \<noteq> NULL \<and> file_table small_context \<noteq> NULL
   \<and> romfsGetDirectoryEntry (Some small_context) ROMFS_VOID_ENTRY = NULL
   \<and> romfsGetFileEntry (Some small_context) ROMFS_VOID_ENTRY = NULL"
  using void_entry_resolves_to_NULL_iff [of small_context]
  by (simp add: small_context_def zeroed_context_def)

lemma truncated_tables_dir_entry:
  "load_dir_entry truncated_tables_heap (Ptr 0 0) =
     Some \<lparr>d_parent_offset = 0, d_next_offset = 0xFFFFFFFF, directory_offset = 0xFFFFFFFF,
       file_offset = 0xFFFFFFFF, d_bucket_offset = 0xFFFFFFFF, d_name_length = 8\<rparr>"
  by (simp add: load_dir_entry_def load_bytes_def truncated_tables_heap_def
      sizeof_RomFileSystemDirectoryEntry_def decode_dir_entry_def le32_def)

lemma truncated_tables_file_entry:
  "load_file_entry truncated_tables_heap (Ptr 1 0) =
     Some \<lparr>f_parent_offset = 0, f_next_offset = 0xFFFFFFFF, f_offset = 0, f_size = 5,
       f_bucket_offset = 0xFFFFFFFF, f_name_length = 4\<rparr>"
  by (simp add: load_file_entry_def load_bytes_def truncated_tables_heap_def
      sizeof_RomFileSystemFileEntry_def decode_file_entry_def le32_def le64_def)

text \<open>
  C3. Resolution looks at the fixed record only. When the fixed record of the entry at
  an offset lies inside the loaded table and the name length stored in that entry
  makes fixed record plus name run past the table's end, the resolver still returns
  the pointer to the entry (not \<^verbatim>\<open>NULL\<close>), and the name-bounds check fails.
\<close>

theorem resolution_ignores_name_length:
  "(dir_table c \<noteq> NULL
      \<and> unat x + 24 \<le> unat (dir_table_size c)
      \<and> load_dir_entry h (romfsGetDirectoryEntry (Some c) x) = Some d
      \<and> unat x + 24 + unat (d_name_length d) > unat (dir_table_size c)
    \<longrightarrow> romfsGetDirectoryEntry (Some c) x = ptr_add (dir_table c) (unat x)
        \<and> romfsGetDirectoryEntry (Some c) x \<noteq> NULL
        \<and> \<not> dir_name_in_bounds c x (d_name_length d))
   \<and> (file_table c \<noteq> NULL
      \<and> unat x + 32 \<le> unat (file_table_size c)
      \<and> load_file_entry h (romfsGetFileEntry (Some c) x) = Some f
      \<and> unat x + 32 + unat (f_name_length f) > unat (file_table_size c)
    \<longrightarrow> romfsGetFileEntry (Some c) x = ptr_add (file_table c) (unat x)
        \<and> romfsGetFileEntry (Some c) x \<noteq> NULL
        \<and> \<not> file_name_in_bounds c x (f_name_length f))"
  by (simp add: romfsGetDirectoryEntry_nat romfsGetFileEntry_nat
      dir_name_in_bounds_def file_name_in_bounds_def
      sizeof_RomFileSystemDirectoryEntry_def sizeof_RomFileSystemFileEntry_def)

theorem resolution_ignores_name_length_witness:
  "romfsGetDirectoryEntry (Some truncated_tables_context) 0 = Ptr 0 0
   \<and> \<not> dir_name_in_bounds truncated_tables_context 0 8
   \<and> romfsGetFileEntry (Some truncated_tables_context) 0 = Ptr 1 0
   \<and> \<not> file_name_in_bounds truncated_tables_context 0 4"
  using resolution_ignores_name_length [of truncated_tables_context 0 truncated_tables_heap
      "\<lparr>d_parent_offset = 0, d_next_offset = 0xFFFFFFFF, directory_offset = 0xFFFFFFFF,
        file_offset = 0xFFFFFFFF, d_bucket_offset = 0xFFFFFFFF, d_name_length = 8\<rparr>"
      "\<lparr>f_parent_offset = 0, f_next_offset = 0xFFFFFFFF, f_offset = 0, f_size = 5,
        f_bucket_offset = 0xFFFFFFFF, f_name_length = 4\<rparr>"]
    truncated_tables_dir_entry truncated_tables_file_entry
  by (simp add: truncated_tables_context_def zeroed_context_def
      romfsGetDirectoryEntry_nat romfsGetFileEntry_nat)

section \<open>Header parsing and initialization\<close>

lemma le_nat_bound: "length bs \<le> n \<Longrightarrow> le_nat bs < 256 ^ n"
proof (induction bs arbitrary: n)
  case Nil
  then show ?case by simp
next
  case (Cons b bs)
  then obtain m where n: "n = Suc m" and len: "length bs \<le> m"
    by (cases n) auto
  have "unat b < 256" using unsigned_less [of b, where 'a=nat] by simp
  moreover have "le_nat bs < 256 ^ m" using Cons.IH [OF len] .
  ultimately show ?case using n by simp
qed

lemma le_nat_append: "le_nat (xs @ ys) = le_nat xs + 256 ^ length xs * le_nat ys"
  by (induction xs) (simp_all add: algebra_simps)

lemma le_nat_take8_mod: "le_nat (take 8 bs) mod 2 ^ 32 = le_nat (take 4 bs)"
proof -
  have split: "take 8 bs = take 4 bs @ take 4 (drop 4 bs)"
    using take_add [of 4 4 bs] by simp
  have small: "le_nat (take 4 bs) < 2 ^ 32"
    using le_nat_bound [of "take 4 bs" 4] by simp
  show ?thesis
  proof (cases "4 \<le> length bs")
    case True
    then have "length (take 4 bs) = 4" by simp
    then have "le_nat (take 8 bs) = le_nat (take 4 bs) + 2 ^ 32 * le_nat (take 4 (drop 4 bs))"
      by (simp add: split le_nat_append)
    then show ?thesis using small by simp
  next
    case False
    then have "take 8 bs = take 4 bs" by simp
    then show ?thesis using small by simp
  qed
qed

lemma cur_header_size_low_half:
  "unat (old_header_size (old_format hdr)) = unat (cur_header_size (cur_format hdr)) mod 2 ^ 32"
proof -
  have "le_nat (take 8 hdr) < 2 ^ 64"
    using le_nat_bound [of "take 8 hdr" 8] by simp
  moreover have "le_nat (take 4 hdr) < 2 ^ 32"
    using le_nat_bound [of "take 4 hdr" 4] by simp
  moreover have "le_nat (take 8 hdr) mod 2 ^ 32 = le_nat (take 4 hdr)"
    by (rule le_nat_take8_mod)
  ultimately show ?thesis
    by (simp add: old_format_def cur_format_def le32_def le64_def unat_of_nat)
qed

lemma layouts_exclusive:
  "unat (cur_header_size (cur_format hdr)) = ROMFS_HEADER_SIZE \<Longrightarrow>
   unat (old_header_size (old_format hdr)) \<noteq> ROMFS_OLD_HEADER_SIZE"
  by (simp add: cur_header_size_low_half ROMFS_HEADER_SIZE_def ROMFS_OLD_HEADER_SIZE_def)

lemma le32_take:
  "k + 4 \<le> n \<Longrightarrow> le32 (take n bs) k = le32 bs k"
  by (simp add: le32_def drop_take min_def)

lemma old_format_take: "old_format (take 40 hdr) = old_format hdr"
  by (simp add: old_format_def le32_take)

lemma parse_header_legacy_prefix:
  assumes "unat (old_header_size (old_format hdr)) = ROMFS_OLD_HEADER_SIZE"
    and "take 40 hdr' = take 40 hdr"
  shows "parse_header hdr' = parse_header hdr"
proof -
  have "old_format hdr' = old_format hdr"
    using assms(2) old_format_take [of hdr] old_format_take [of hdr'] by simp
  with assms(1) show ?thesis by (simp add: parse_header_def)
qed

lemma unat_ROMFS_HEADER_SIZE: "unat (word_of_nat ROMFS_HEADER_SIZE :: u64) = ROMFS_HEADER_SIZE"
  by (simp add: ROMFS_HEADER_SIZE_def)

lemma init_header_read:
  assumes "read_section rd (region_offset rd) (word_of_nat ROMFS_HEADER_SIZE) = Some hdr"
    and "length hdr = ROMFS_HEADER_SIZE"
  shows "delegated_read (read_section rd) (region_offset rd) (word_of_nat ROMFS_HEADER_SIZE) h
          = (Inr hdr, h\<lparr>calls := calls h @ [CallRead (region_offset rd) (word_of_nat ROMFS_HEADER_SIZE)]\<rparr>)"
  using assms by (simp add: delegated_read_def ROMFS_HEADER_SIZE_def)

lemma init_format_error:
  assumes "read_section rd (region_offset rd) (word_of_nat ROMFS_HEADER_SIZE) = Some hdr"
    and "length hdr = ROMFS_HEADER_SIZE"
    and "parse_header hdr = Inl e"
  shows "romfsInitializeContext rd h =
           (Inl e, h\<lparr>calls := calls h @ [CallRead (region_offset rd) (word_of_nat ROMFS_HEADER_SIZE)]\<rparr>)"
  using assms(3) by (simp add: romfsInitializeContext_def init_header_read [OF assms(1,2)])

lemma legacy_header_size: "unat (old_header_size (old_format legacy_header)) = ROMFS_OLD_HEADER_SIZE"
  by (simp add: legacy_header_def old_format_def le32_def ROMFS_OLD_HEADER_SIZE_def)

lemma current_header_size:
  "unat (old_header_size (old_format current_header)) \<noteq> ROMFS_OLD_HEADER_SIZE
   \<and> unat (cur_header_size (cur_format current_header)) = ROMFS_HEADER_SIZE"
  by (simp add: current_header_def old_format_def cur_format_def le32_def le64_def
      ROMFS_OLD_HEADER_SIZE_def ROMFS_HEADER_SIZE_def)

lemma le_nat_zeros: "le_nat (replicate n 0) = 0"
  by (induction n) simp_all

lemma zero_header_size:
  "unat (old_header_size (old_format (replicate ROMFS_HEADER_SIZE 0))) \<noteq> ROMFS_OLD_HEADER_SIZE
   \<and> unat (cur_header_size (cur_format (replicate ROMFS_HEADER_SIZE 0))) \<noteq> ROMFS_HEADER_SIZE"
  by (simp add: old_format_def cur_format_def le32_def le64_def
      ROMFS_OLD_HEADER_SIZE_def ROMFS_HEADER_SIZE_def le_nat_zeros)

lemma parse_current_header:
  "parse_header current_header = Inr (Current, cur_format current_header)"
  using current_header_size by (simp add: parse_header_def)

lemma cur_format_current_header:
  "cur_format current_header =
     \<lparr>cur_header_size = 0x50, cur_directory_bucket_offset = 0x50,
      cur_directory_bucket_size = 4, cur_directory_entry_offset = 0x54,
      cur_directory_entry_size = 0x18, cur_file_bucket_offset = 0x6C,
      cur_file_bucket_size = 4, cur_file_entry_offset = 0x70,
      cur_file_entry_size = 0, cur_body_offset = 0x70\<rparr>"
  by (simp add: current_header_def cur_format_def le64_def)

lemma parse_no_directories_header:
  "parse_header no_directories_header = Inr (Current, cur_format no_directories_header)
   \<and> cur_directory_entry_size (cur_format no_directories_header) = 0"
  by (simp add: parse_header_def no_directories_header_def cur_format_def old_format_def
      le32_def le64_def ROMFS_OLD_HEADER_SIZE_def ROMFS_HEADER_SIZE_def)

text \<open>
  C4. Header parsing covers every header. If the 32-bit header-size field is 0x28, the
  header is parsed as legacy, its fields the zero-extended 32-bit ones, and the result
  depends on the first 0x28 bytes only: the 64-bit view is not consulted. Otherwise, if
  the 64-bit header-size field is 0x50, it is parsed as current. The two conditions
  exclude each other. For any other value parsing fails with \<open>FormatError\<close>, and so
  does the initialization that has read this header.
\<close>

theorem header_parsing_total:
  "(unat (old_header_size (old_format hdr)) = ROMFS_OLD_HEADER_SIZE \<longrightarrow>
      parse_header hdr = Inr (Legacy, widen_old_format (old_format hdr))
      \<and> (\<forall>hdr'. take ROMFS_OLD_HEADER_SIZE hdr' = take ROMFS_OLD_HEADER_SIZE hdr
             \<longrightarrow> parse_header hdr' = parse_header hdr))
   \<and> (unat (old_header_size (old_format hdr)) \<noteq> ROMFS_OLD_HEADER_SIZE
      \<and> unat (cur_header_size (cur_format hdr)) = ROMFS_HEADER_SIZE \<longrightarrow>
      parse_header hdr = Inr (Current, cur_format hdr))
   \<and> (unat (cur_header_size (cur_format hdr)) = ROMFS_HEADER_SIZE \<longrightarrow>
      unat (old_header_size (old_format hdr)) \<noteq> ROMFS_OLD_HEADER_SIZE)
   \<and> (unat (old_header_size (old_format hdr)) \<noteq> ROMFS_OLD_HEADER_SIZE
      \<and> unat (cur_header_size (cur_format hdr)) \<noteq> ROMFS_HEADER_SIZE \<longrightarrow>
      parse_header hdr = Inl FormatError
      \<and> (\<forall>(rd::section_reader) h. read_section rd (region_offset rd) (word_of_nat ROMFS_HEADER_SIZE) = Some hdr
             \<and> length hdr = ROMFS_HEADER_SIZE
             \<longrightarrow> fst (romfsInitializeContext rd h) = Inl FormatError))"
proof (intro conjI impI allI)
  assume "unat (old_header_size (old_format hdr)) = ROMFS_OLD_HEADER_SIZE"
  then show "parse_header hdr = Inr (Legacy, widen_old_format (old_format hdr))"
    by (simp add: parse_header_def)
next
  fix hdr'
  assume "unat (old_header_size (old_format hdr)) = ROMFS_OLD_HEADER_SIZE"
    and "take ROMFS_OLD_HEADER_SIZE hdr' = take ROMFS_OLD_HEADER_SIZE hdr"
  then show "parse_header hdr' = parse_header hdr"
    using parse_header_legacy_prefix [of hdr hdr'] by (simp add: ROMFS_OLD_HEADER_SIZE_def)
next
  assume "unat (old_header_size (old_format hdr)) \<noteq> ROMFS_OLD_HEADER_SIZE
      \<and> unat (cur_header_size (cur_format hdr)) = ROMFS_HEADER_SIZE"
  then show "parse_header hdr = Inr (Current, cur_format hdr)"
    by (simp add: parse_header_def)
next
  assume "unat (cur_header_size (cur_format hdr)) = ROMFS_HEADER_SIZE"
  then show "unat (old_header_size (old_format hdr)) \<noteq> ROMFS_OLD_HEADER_SIZE"
    by (rule layouts_exclusive)
next
  assume "unat (old_header_size (old_format hdr)) \<noteq> ROMFS_OLD_HEADER_SIZE
      \<and> unat (cur_header_size (cur_format hdr)) \<noteq> ROMFS_HEADER_SIZE"
  then show "parse_header hdr = Inl FormatError"
    by (simp add: parse_header_def)
next
  fix rd :: section_reader and h
  assume a: "unat (old_header_size (old_format hdr)) \<noteq> ROMFS_OLD_HEADER_SIZE
      \<and> unat (cur_header_size (cur_format hdr)) \<noteq> ROMFS_HEADER_SIZE"
    and b: "read_section rd (region_offset rd) (word_of_nat ROMFS_HEADER_SIZE) = Some hdr
             \<and> length hdr = ROMFS_HEADER_SIZE"
  from a have "parse_header hdr = Inl FormatError"
    by (simp add: parse_header_def)
  with b show "fst (romfsInitializeContext rd h) = Inl FormatError"
    by (simp add: init_format_error)
qed

theorem header_parsing_total_witness:
  "parse_header legacy_header = Inr (Legacy, widen_old_format (old_format legacy_header))
   \<and> parse_header (take 40 legacy_header @ replicate 40 0xFF) = parse_header legacy_header
   \<and> parse_header current_header = Inr (Current, cur_format current_header)
   \<and> parse_header (replicate ROMFS_HEADER_SIZE 0) = Inl FormatError
   \<and> fst (romfsInitializeContext zero_header_reader empty_heap) = Inl FormatError"
proof -
  have tail: "take ROMFS_OLD_HEADER_SIZE (take 40 legacy_header @ replicate 40 0xFF)
                = take ROMFS_OLD_HEADER_SIZE legacy_header"
    by (simp add: legacy_header_def ROMFS_OLD_HEADER_SIZE_def)
  have rd: "read_section zero_header_reader (region_offset zero_header_reader)
              (word_of_nat ROMFS_HEADER_SIZE) = Some (replicate ROMFS_HEADER_SIZE 0)
            \<and> length (replicate ROMFS_HEADER_SIZE (0::u8)) = ROMFS_HEADER_SIZE"
    by (simp add: zero_header_reader_def reader_of_def ROMFS_HEADER_SIZE_def)
  show ?thesis
    using header_parsing_total [of legacy_header] header_parsing_total [of current_header]
      header_parsing_total [of "replicate ROMFS_HEADER_SIZE 0"]
      legacy_header_size current_header_size zero_header_size tail rd
    by blast
qed

text \<open>
  C6. With a header that parses, a directory table of nonzero size and a file table of
  size zero, initialization succeeds when the two table reads do: the context has a
  file table of size zero. With a directory table of size zero it fails with
  \<open>FormatError\<close>, and the heap differs from the initial one by the record of the header
  read alone: no table read was made and no buffer allocated.
\<close>

theorem table_size_validation:
  "(read_section rd (region_offset rd) (word_of_nat ROMFS_HEADER_SIZE) = Some hdr
      \<and> length hdr = ROMFS_HEADER_SIZE
      \<and> parse_header hdr = Inr (lay, info)
      \<and> cur_directory_entry_size info \<noteq> 0
      \<and> cur_file_entry_size info = 0
      \<and> read_section rd (region_offset rd + cur_directory_entry_offset info)
            (cur_directory_entry_size info) = Some dir_bytes
      \<and> length dir_bytes = unat (cur_directory_entry_size info)
      \<and> read_section rd (region_offset rd + cur_file_entry_offset info) 0 = Some []
    \<longrightarrow> (\<exists>c h'. romfsInitializeContext rd h = (Inr c, h')
           \<and> file_table_size c = 0
           \<and> dir_table_size c = cur_directory_entry_size info
           \<and> load_bytes h' (dir_table c) (length dir_bytes) = Some dir_bytes
           \<and> load_bytes h' (file_table c) 0 = Some []))
   \<and> (read_section rd (region_offset rd) (word_of_nat ROMFS_HEADER_SIZE) = Some hdr
      \<and> length hdr = ROMFS_HEADER_SIZE
      \<and> parse_header hdr = Inr (lay, info)
      \<and> cur_directory_entry_size info = 0
    \<longrightarrow> romfsInitializeContext rd h =
          (Inl FormatError,
           h\<lparr>calls := calls h @ [CallRead (region_offset rd) (word_of_nat ROMFS_HEADER_SIZE)]\<rparr>))"
proof (intro conjI impI)
  assume a: "read_section rd (region_offset rd) (word_of_nat ROMFS_HEADER_SIZE) = Some hdr
      \<and> length hdr = ROMFS_HEADER_SIZE
      \<and> parse_header hdr = Inr (lay, info)
      \<and> cur_directory_entry_size info = 0"
  then show "romfsInitializeContext rd h =
          (Inl FormatError,
           h\<lparr>calls := calls h @ [CallRead (region_offset rd) (word_of_nat ROMFS_HEADER_SIZE)]\<rparr>)"
    by (simp add: romfsInitializeContext_def init_header_read)
next
  assume a: "read_section rd (region_offset rd) (word_of_nat ROMFS_HEADER_SIZE) = Some hdr
      \<and> length hdr = ROMFS_HEADER_SIZE
      \<and> parse_header hdr = Inr (lay, info)
      \<and> cur_directory_entry_size info \<noteq> 0
      \<and> cur_file_entry_size info = 0
      \<and> read_section rd (region_offset rd + cur_directory_entry_offset info)
            (cur_directory_entry_size info) = Some dir_bytes
      \<and> length dir_bytes = unat (cur_directory_entry_size info)
      \<and> read_section rd (region_offset rd + cur_file_entry_offset info) 0 = Some []"
  then show "\<exists>c h'. romfsInitializeContext rd h = (Inr c, h')
           \<and> file_table_size c = 0
           \<and> dir_table_size c = cur_directory_entry_size info
           \<and> load_bytes h' (dir_table c) (length dir_bytes) = Some dir_bytes
           \<and> load_bytes h' (file_table c) 0 = Some []"
    by (simp add: romfsInitializeContext_def delegated_read_def malloc_def
        fill_def load_bytes_def unat_ROMFS_HEADER_SIZE)
qed

theorem table_size_validation_witness:
  "(\<exists>c h'. romfsInitializeContext empty_archive_reader empty_heap = (Inr c, h')
       \<and> file_table_size c = 0 \<and> dir_table_size c = 0x18
       \<and> load_bytes h' (dir_table c) 24 = Some root_only_dir_table
       \<and> load_bytes h' (file_table c) 0 = Some [])
   \<and> romfsInitializeContext no_directories_reader empty_heap =
       (Inl FormatError, empty_heap\<lparr>calls := [CallRead 0 0x50]\<rparr>)"
proof -
  have a: "read_section empty_archive_reader (region_offset empty_archive_reader)
             (word_of_nat ROMFS_HEADER_SIZE) = Some current_header
      \<and> length current_header = ROMFS_HEADER_SIZE
      \<and> parse_header current_header = Inr (Current, cur_format current_header)
      \<and> cur_directory_entry_size (cur_format current_header) \<noteq> 0
      \<and> cur_file_entry_size (cur_format current_header) = 0
      \<and> read_section empty_archive_reader
            (region_offset empty_archive_reader
               + cur_directory_entry_offset (cur_format current_header))
            (cur_directory_entry_size (cur_format current_header)) = Some root_only_dir_table
      \<and> length root_only_dir_table = unat (cur_directory_entry_size (cur_format current_header))
      \<and> read_section empty_archive_reader
            (region_offset empty_archive_reader
               + cur_file_entry_offset (cur_format current_header)) 0 = Some []"
    by (simp add: parse_current_header cur_format_current_header empty_archive_reader_def
        reader_of_def ROMFS_HEADER_SIZE_def)
       (simp add: current_header_def root_only_dir_table_def)
  have b: "read_section no_directories_reader (region_offset no_directories_reader)
             (word_of_nat ROMFS_HEADER_SIZE) = Some no_directories_header
      \<and> length no_directories_header = ROMFS_HEADER_SIZE
      \<and> parse_header no_directories_header = Inr (Current, cur_format no_directories_header)
      \<and> cur_directory_entry_size (cur_format no_directories_header) = 0"
    by (simp add: parse_no_directories_header no_directories_reader_def
        reader_of_def ROMFS_HEADER_SIZE_def)
       (simp add: no_directories_header_def)
  have A: "\<exists>c h'. romfsInitializeContext empty_archive_reader empty_heap = (Inr c, h')
       \<and> file_table_size c = 0
       \<and> dir_table_size c = cur_directory_entry_size (cur_format current_header)
       \<and> load_bytes h' (dir_table c) (length root_only_dir_table) = Some root_only_dir_table
       \<and> load_bytes h' (file_table c) 0 = Some []"
    by (rule mp [OF conjunct1 [OF table_size_validation [of empty_archive_reader current_header Current
          "cur_format current_header" root_only_dir_table empty_heap]] a])
  have B: "romfsInitializeContext no_directories_reader empty_heap =
       (Inl FormatError, empty_heap\<lparr>calls := calls empty_heap
          @ [CallRead (region_offset no_directories_reader) (word_of_nat ROMFS_HEADER_SIZE)]\<rparr>)"
    by (rule mp [OF conjunct2 [OF table_size_validation [where rd = no_directories_reader
          and hdr = no_directories_header and lay = Current
          and info = "cur_format no_directories_header" and h = empty_heap]] b])
  have n: "length root_only_dir_table = 24"
    "cur_directory_entry_size (cur_format current_header) = 0x18"
    "calls empty_heap = []" "region_offset no_directories_reader = 0"
    "(word_of_nat ROMFS_HEADER_SIZE :: u64) = 0x50"
    by (simp_all add: root_only_dir_table_def cur_format_current_header empty_heap_def
        no_directories_reader_def reader_of_def ROMFS_HEADER_SIZE_def)
  from A B show ?thesis unfolding n by simp
qed

section \<open>Reading file data\<close>




section \<open>Size accounting\<close>

subsection \<open>More fuel does not change a result\<close>

lemma file_chain_size_mono:
  "file_chain_size n h c off = Some r \<Longrightarrow> n \<le> m \<Longrightarrow> file_chain_size m h c off = Some r"
proof (induction n arbitrary: m off r)
  case 0
  then show ?case by simp
next
  case (Suc n)
  then obtain m' where m: "m = Suc m'" and le: "n \<le> m'"
    by (cases m) auto
  show ?case
  proof (cases "off = ROMFS_VOID_ENTRY")
    case True
    with Suc.prems m show ?thesis by simp
  next
    case False
    show ?thesis
    proof (cases "get_file_entry h c off")
      case (Inl e)
      with Suc.prems m False show ?thesis by simp
    next
      case (Inr f)
      with Suc.prems False obtain r' where
        r': "file_chain_size n h c (f_next_offset f) = Some r'"
        by (auto split: option.splits)
      have "file_chain_size m' h c (f_next_offset f) = Some r'"
        using Suc.IH [OF r' le] .
      with Suc.prems r' Inr False m show ?thesis by simp
    qed
  qed
qed

lemma dir_size_mono_both:
  "(\<forall>m off r. romfsGetDirectoryDataSize n h c off = Some r \<longrightarrow> n \<le> m
       \<longrightarrow> romfsGetDirectoryDataSize m h c off = Some r)
   \<and> (\<forall>m off r. dir_chain_size n h c off = Some r \<longrightarrow> n \<le> m
       \<longrightarrow> dir_chain_size m h c off = Some r)"
proof (induction n)
  case 0
  then show ?case by simp
next
  case (Suc n)
  have IHd: "\<And>m off r. romfsGetDirectoryDataSize n h c off = Some r \<Longrightarrow> n \<le> m
       \<Longrightarrow> romfsGetDirectoryDataSize m h c off = Some r"
    and IHc: "\<And>m off r. dir_chain_size n h c off = Some r \<Longrightarrow> n \<le> m
       \<Longrightarrow> dir_chain_size m h c off = Some r"
    using Suc.IH by blast+
  show ?case
  proof (intro conjI allI impI)
    fix m off r
    assume run: "romfsGetDirectoryDataSize (Suc n) h c off = Some r" and "Suc n \<le> m"
    then obtain m' where m: "m = Suc m'" and le: "n \<le> m'"
      by (cases m) auto
    show "romfsGetDirectoryDataSize m h c off = Some r"
    proof (cases "get_dir_entry h c off")
      case (Inl e)
      with run m show ?thesis by simp
    next
      case (Inr d)
      from run Inr obtain rf where rf: "file_chain_size n h c (file_offset d) = Some rf"
        by (auto split: option.splits)
      then have rf': "file_chain_size m' h c (file_offset d) = Some rf"
        using file_chain_size_mono le by blast
      show ?thesis
      proof (cases rf)
        case (Inl e)
        with run Inr rf rf' m show ?thesis by auto
      next
        case files: (Inr files)
        from run Inr rf files obtain rc where
          rc: "dir_chain_size n h c (directory_offset d) = Some rc"
          by (auto split: option.splits)
        then have "dir_chain_size m' h c (directory_offset d) = Some rc"
          using IHc le by blast
        with run Inr rf rf' files rc m show ?thesis by auto
      qed
    qed
  next
    fix m off r
    assume run: "dir_chain_size (Suc n) h c off = Some r" and "Suc n \<le> m"
    then obtain m' where m: "m = Suc m'" and le: "n \<le> m'"
      by (cases m) auto
    show "dir_chain_size m h c off = Some r"
    proof (cases "off = ROMFS_VOID_ENTRY")
      case True
      with run m show ?thesis by simp
    next
      case False
      show ?thesis
      proof (cases "get_dir_entry h c off")
        case (Inl e)
        with run m False show ?thesis by simp
      next
        case (Inr d)
        from run Inr False obtain rd where rd: "romfsGetDirectoryDataSize n h c off = Some rd"
          by (auto split: option.splits)
        then have rd': "romfsGetDirectoryDataSize m' h c off = Some rd"
          using IHd le by blast
        show ?thesis
        proof (cases rd)
          case (Inl e)
          with run Inr rd rd' m False show ?thesis by auto
        next
          case child: (Inr child)
          from run Inr rd child False obtain rc where
            rc: "dir_chain_size n h c (d_next_offset d) = Some rc"
            by (auto split: option.splits)
          then have "dir_chain_size m' h c (d_next_offset d) = Some rc"
            using IHc le by blast
          with run Inr rd rd' child rc m False show ?thesis by auto
        qed
      qed
    qed
  qed
qed

lemma romfsGetDirectoryDataSize_mono:
  "romfsGetDirectoryDataSize n h c off = Some r \<Longrightarrow> n \<le> m
     \<Longrightarrow> romfsGetDirectoryDataSize m h c off = Some r"
  using dir_size_mono_both by blast

lemma dir_chain_size_mono:
  "dir_chain_size n h c off = Some r \<Longrightarrow> n \<le> m \<Longrightarrow> dir_chain_size m h c off = Some r"
  using dir_size_mono_both by blast

subsection \<open>A walk that succeeds returns the sum over the files met\<close>

lemma file_size_at_entry: "get_file_entry h c off = Inr f \<Longrightarrow> file_size_at h c off = f_size f"
  by (simp add: file_size_at_def)

lemma file_chain_size_complete:
  "file_chain h c off fs \<Longrightarrow>
   file_chain_size (Suc (length fs)) h c off = Some (Inr (sum_list (map (file_size_at h c) fs)))"
  by (induction rule: file_chain.induct) (simp_all add: file_size_at_entry)

lemma file_chain_size_returns:
  assumes "file_chain h c off fs" and "length fs < k"
  shows "file_chain_size k h c off = Some (Inr (sum_list (map (file_size_at h c) fs)))"
proof (rule file_chain_size_mono [OF file_chain_size_complete [OF assms(1)]])
  show "Suc (length fs) \<le> k" using assms(2) by simp
qed

lemma directory_size_returns_both:
  "(directory_files h c off fs \<longrightarrow>
      (\<exists>n. \<forall>k\<ge>n. romfsGetDirectoryDataSize k h c off
                     = Some (Inr (sum_list (map (file_size_at h c) fs)))))
   \<and> (sibling_files h c off' gs \<longrightarrow>
      (\<exists>n. \<forall>k\<ge>n. dir_chain_size k h c off'
                     = Some (Inr (sum_list (map (file_size_at h c) gs)))))"
proof (induction rule: directory_files_sibling_files.induct)
  case (directory_filesI off d fs gs)
  then obtain n where n: "\<forall>k\<ge>n. dir_chain_size k h c (directory_offset d)
      = Some (Inr (sum_list (map (file_size_at h c) gs)))"
    by blast
  have "\<forall>k \<ge> Suc (max (Suc (length fs)) n). romfsGetDirectoryDataSize k h c off
          = Some (Inr (sum_list (map (file_size_at h c) (fs @ gs))))"
  proof (intro allI impI)
    fix k
    assume "Suc (max (Suc (length fs)) n) \<le> k"
    then obtain k' where k: "k = Suc k'" and f: "length fs < k'" and g: "n \<le> k'"
      by (cases k) auto
    from file_chain_size_returns [OF directory_filesI(2) f] n g directory_filesI(1)
    show "romfsGetDirectoryDataSize k h c off
          = Some (Inr (sum_list (map (file_size_at h c) (fs @ gs))))"
      by (simp add: k)
  qed
  then show ?case by blast
next
  case sibling_files_end
  have "\<forall>k\<ge>1. dir_chain_size k h c ROMFS_VOID_ENTRY = Some (Inr 0)"
  proof (intro allI impI)
    fix k :: nat
    assume "1 \<le> k"
    then obtain k' where "k = Suc k'" by (cases k) auto
    then show "dir_chain_size k h c ROMFS_VOID_ENTRY = Some (Inr 0)" by simp
  qed
  then show ?case by auto
next
  case (sibling_files_link off d fs gs)
  then obtain n1 n2 where
    n1: "\<forall>k\<ge>n1. romfsGetDirectoryDataSize k h c off
          = Some (Inr (sum_list (map (file_size_at h c) fs)))"
    and n2: "\<forall>k\<ge>n2. dir_chain_size k h c (d_next_offset d)
          = Some (Inr (sum_list (map (file_size_at h c) gs)))"
    by blast
  have "\<forall>k \<ge> Suc (max n1 n2). dir_chain_size k h c off
          = Some (Inr (sum_list (map (file_size_at h c) (fs @ gs))))"
  proof (intro allI impI)
    fix k
    assume "Suc (max n1 n2) \<le> k"
    then obtain k' where k: "k = Suc k'" and f: "n1 \<le> k'" and g: "n2 \<le> k'"
      by (cases k) auto
    from n1 n2 f g sibling_files_link(1,2)
    show "dir_chain_size k h c off
          = Some (Inr (sum_list (map (file_size_at h c) (fs @ gs))))"
      by (simp add: k)
  qed
  then show ?case by blast
qed

lemma directory_size_returns:
  "directory_files h c off fs \<Longrightarrow>
   \<exists>n. \<forall>k\<ge>n. romfsGetDirectoryDataSize k h c off
                  = Some (Inr (sum_list (map (file_size_at h c) fs)))"
  using directory_size_returns_both by blast

subsection \<open>A walk that returns a sum has met a well-formed archive\<close>

lemma file_chain_size_sound:
  "file_chain_size n h c off = Some (Inr s) \<Longrightarrow>
   \<exists>fs. file_chain h c off fs \<and> s = sum_list (map (file_size_at h c) fs)"
proof (induction n arbitrary: off s)
  case 0
  then show ?case by simp
next
  case (Suc n)
  show ?case
  proof (cases "off = ROMFS_VOID_ENTRY")
    case True
    with Suc.prems have "s = 0" by simp
    with True show ?thesis using file_chain_end [of h c] by auto
  next
    case False
    with Suc.prems obtain f rest where
      f: "get_file_entry h c off = Inr f"
      and rest: "file_chain_size n h c (f_next_offset f) = Some (Inr rest)"
      and s: "s = f_size f + rest"
      by (auto split: sum.splits option.splits)
    from Suc.IH [OF rest] obtain fs where
      fs: "file_chain h c (f_next_offset f) fs" "rest = sum_list (map (file_size_at h c) fs)"
      by blast
    have "file_chain h c off (off # fs)"
      using False f fs(1) by (rule file_chain_link)
    moreover have "s = sum_list (map (file_size_at h c) (off # fs))"
      using s fs(2) f by (simp add: file_size_at_entry)
    ultimately show ?thesis by blast
  qed
qed

lemma directory_size_sound_both:
  "(\<forall>off s. romfsGetDirectoryDataSize n h c off = Some (Inr s) \<longrightarrow>
      (\<exists>fs. directory_files h c off fs \<and> s = sum_list (map (file_size_at h c) fs)))
   \<and> (\<forall>off s. dir_chain_size n h c off = Some (Inr s) \<longrightarrow>
      (\<exists>fs. sibling_files h c off fs \<and> s = sum_list (map (file_size_at h c) fs)))"
proof (induction n)
  case 0
  then show ?case by simp
next
  case (Suc n)
  have IHd: "\<And>off s. romfsGetDirectoryDataSize n h c off = Some (Inr s) \<Longrightarrow>
      \<exists>fs. directory_files h c off fs \<and> s = sum_list (map (file_size_at h c) fs)"
    and IHc: "\<And>off s. dir_chain_size n h c off = Some (Inr s) \<Longrightarrow>
      \<exists>fs. sibling_files h c off fs \<and> s = sum_list (map (file_size_at h c) fs)"
    using Suc.IH by blast+
  show ?case
  proof (intro conjI allI impI)
    fix off s
    assume run: "romfsGetDirectoryDataSize (Suc n) h c off = Some (Inr s)"
    then obtain d files children where
      d: "get_dir_entry h c off = Inr d"
      and files: "file_chain_size n h c (file_offset d) = Some (Inr files)"
      and children: "dir_chain_size n h c (directory_offset d) = Some (Inr children)"
      and s: "s = files + children"
      by (auto split: sum.splits option.splits)
    from file_chain_size_sound [OF files] obtain fs where
      fs: "file_chain h c (file_offset d) fs" "files = sum_list (map (file_size_at h c) fs)"
      by blast
    from IHc [OF children] obtain gs where
      gs: "sibling_files h c (directory_offset d) gs"
        "children = sum_list (map (file_size_at h c) gs)"
      by blast
    have "directory_files h c off (fs @ gs)"
      using d fs(1) gs(1) by (rule directory_filesI)
    moreover have "s = sum_list (map (file_size_at h c) (fs @ gs))"
      using s fs(2) gs(2) by simp
    ultimately show "\<exists>fs. directory_files h c off fs \<and> s = sum_list (map (file_size_at h c) fs)"
      by blast
  next
    fix off s
    assume run: "dir_chain_size (Suc n) h c off = Some (Inr s)"
    show "\<exists>fs. sibling_files h c off fs \<and> s = sum_list (map (file_size_at h c) fs)"
    proof (cases "off = ROMFS_VOID_ENTRY")
      case True
      with run have "s = 0" by simp
      with True show ?thesis using sibling_files_end [of h c] by auto
    next
      case False
      with run obtain d child rest where
        d: "get_dir_entry h c off = Inr d"
        and child: "romfsGetDirectoryDataSize n h c off = Some (Inr child)"
        and rest: "dir_chain_size n h c (d_next_offset d) = Some (Inr rest)"
        and s: "s = child + rest"
        by (auto split: sum.splits option.splits)
      from IHd [OF child] obtain fs where
        fs: "directory_files h c off fs" "child = sum_list (map (file_size_at h c) fs)"
        by blast
      from IHc [OF rest] obtain gs where
        gs: "sibling_files h c (d_next_offset d) gs"
          "rest = sum_list (map (file_size_at h c) gs)"
        by blast
      have "sibling_files h c off (fs @ gs)"
        using False d fs(1) gs(1) by (rule sibling_files_link)
      moreover have "s = sum_list (map (file_size_at h c) (fs @ gs))"
        using s fs(2) gs(2) by simp
      ultimately show ?thesis by blast
    qed
  qed
qed

lemma directory_size_sound:
  "romfsGetDirectoryDataSize n h c off = Some (Inr s) \<Longrightarrow>
   \<exists>fs. directory_files h c off fs \<and> s = sum_list (map (file_size_at h c) fs)"
  using directory_size_sound_both by blast

subsection \<open>A walk that meets an offset that does not resolve returns the traversal error\<close>

lemma get_file_entry_NULL:
  "romfsGetFileEntry (Some c) off = NULL \<Longrightarrow> get_file_entry h c off = Inl TraversalError"
  by (simp add: get_file_entry_def)

lemma get_dir_entry_NULL:
  "romfsGetDirectoryEntry (Some c) off = NULL \<Longrightarrow> get_dir_entry h c off = Inl TraversalError"
  by (simp add: get_dir_entry_def)

lemma get_file_entry_resolved:
  "get_file_entry h c off = Inr f \<Longrightarrow> romfsGetFileEntry (Some c) off \<noteq> NULL"
  by (auto simp: get_file_entry_def)

lemma get_dir_entry_resolved:
  "get_dir_entry h c off = Inr d \<Longrightarrow> romfsGetDirectoryEntry (Some c) off \<noteq> NULL"
  by (auto simp: get_dir_entry_def)

lemma from_fuel:
  assumes "\<And>k'. n \<le> k' \<Longrightarrow> f (Suc k') = r"
  shows "\<forall>k \<ge> Suc n. f k = r"
proof (intro allI impI)
  fix k
  assume "Suc n \<le> k"
  then obtain k' where "k = Suc k'" "n \<le> k'" by (cases k) auto
  with assms show "f k = r" by simp
qed

lemma file_chain_breaks_returns:
  "file_chain_breaks h c off \<Longrightarrow>
   \<exists>n. \<forall>k\<ge>n. file_chain_size k h c off = Some (Inl TraversalError)"
proof (induction rule: file_chain_breaks.induct)
  case (file_breaks_here off)
  then have "\<forall>k \<ge> Suc 0. file_chain_size k h c off = Some (Inl TraversalError)"
    by (intro from_fuel) (simp add: get_file_entry_NULL)
  then show ?case by blast
next
  case (file_breaks_later off f)
  then obtain n where
    n: "\<forall>k\<ge>n. file_chain_size k h c (f_next_offset f) = Some (Inl TraversalError)"
    by blast
  have "\<forall>k \<ge> Suc n. file_chain_size k h c off = Some (Inl TraversalError)"
    using file_breaks_later(1,2) n by (intro from_fuel) simp
  then show ?case by blast
qed

lemma directory_breaks_returns_both:
  "(directory_breaks h c off \<longrightarrow>
      (\<exists>n. \<forall>k\<ge>n. romfsGetDirectoryDataSize k h c off = Some (Inl TraversalError)))
   \<and> (siblings_break h c off' \<longrightarrow>
      (\<exists>n. \<forall>k\<ge>n. dir_chain_size k h c off' = Some (Inl TraversalError)))"
proof (induction rule: directory_breaks_siblings_break.induct)
  case (directory_breaks_here off)
  then have "\<forall>k \<ge> Suc 0. romfsGetDirectoryDataSize k h c off = Some (Inl TraversalError)"
    by (intro from_fuel) (simp add: get_dir_entry_NULL)
  then show ?case by blast
next
  case (directory_breaks_files off d)
  from file_chain_breaks_returns [OF directory_breaks_files(2)] obtain n where
    n: "\<forall>k\<ge>n. file_chain_size k h c (file_offset d) = Some (Inl TraversalError)"
    by blast
  have "\<forall>k \<ge> Suc n. romfsGetDirectoryDataSize k h c off = Some (Inl TraversalError)"
    using directory_breaks_files(1) n by (intro from_fuel) simp
  then show ?case by blast
next
  case (directory_breaks_children off d fs)
  then obtain n where
    n: "\<forall>k\<ge>n. dir_chain_size k h c (directory_offset d) = Some (Inl TraversalError)"
    by blast
  have "\<forall>k \<ge> Suc (max (Suc (length fs)) n).
          romfsGetDirectoryDataSize k h c off = Some (Inl TraversalError)"
  proof (intro from_fuel)
    fix k'
    assume "max (Suc (length fs)) n \<le> k'"
    then have f: "length fs < k'" and g: "n \<le> k'" by auto
    from file_chain_size_returns [OF directory_breaks_children(2) f] n g
      directory_breaks_children(1)
    show "romfsGetDirectoryDataSize (Suc k') h c off = Some (Inl TraversalError)"
      by simp
  qed
  then show ?case by blast
next
  case (siblings_break_here off)
  then have "\<forall>k \<ge> Suc 0. dir_chain_size k h c off = Some (Inl TraversalError)"
    by (intro from_fuel) (simp add: get_dir_entry_NULL)
  then show ?case by blast
next
  case (siblings_break_inside off d)
  then obtain n where
    n: "\<forall>k\<ge>n. romfsGetDirectoryDataSize k h c off = Some (Inl TraversalError)"
    by blast
  have "\<forall>k \<ge> Suc n. dir_chain_size k h c off = Some (Inl TraversalError)"
    using siblings_break_inside(1,2) n by (intro from_fuel) simp
  then show ?case by blast
next
  case (siblings_break_later off d fs)
  then obtain n where
    n: "\<forall>k\<ge>n. dir_chain_size k h c (d_next_offset d) = Some (Inl TraversalError)"
    by blast
  from directory_size_returns [OF siblings_break_later(3)] obtain m where
    m: "\<forall>k\<ge>m. romfsGetDirectoryDataSize k h c off
                  = Some (Inr (sum_list (map (file_size_at h c) fs)))"
    by blast
  have "\<forall>k \<ge> Suc (max m n). dir_chain_size k h c off = Some (Inl TraversalError)"
  proof (intro from_fuel)
    fix k'
    assume "max m n \<le> k'"
    then have f: "m \<le> k'" and g: "n \<le> k'" by auto
    from m n f g siblings_break_later(1,2)
    show "dir_chain_size (Suc k') h c off = Some (Inl TraversalError)"
      by simp
  qed
  then show ?case by blast
qed

lemma directory_breaks_returns:
  "directory_breaks h c off \<Longrightarrow>
   \<exists>n. \<forall>k\<ge>n. romfsGetDirectoryDataSize k h c off = Some (Inl TraversalError)"
  using directory_breaks_returns_both by blast

subsection \<open>The files met by the walk are the files linked in the archive\<close>

lemma file_linked_VOID: "file_linked h c s f \<Longrightarrow> s \<noteq> ROMFS_VOID_ENTRY"
  by (induction rule: file_linked.induct) simp_all

lemma file_linked_from_next:
  assumes "s \<noteq> ROMFS_VOID_ENTRY" and "get_file_entry h c s = Inr e"
    and "file_linked h c (f_next_offset e) f"
  shows "file_linked h c s f"
  using assms(3)
proof (induction rule: file_linked.induct)
  case file_linked_first
  then show ?case
    using file_linked.file_linked_next [OF file_linked.file_linked_first [OF assms(1)] assms(2)] by simp
next
  case (file_linked_next f e')
  then show ?case by (blast intro: file_linked.file_linked_next)
qed

lemma file_linked_unfold:
  assumes "s \<noteq> ROMFS_VOID_ENTRY" and "get_file_entry h c s = Inr e"
  shows "{f. file_linked h c s f} = insert s {f. file_linked h c (f_next_offset e) f}"
proof (intro equalityI subsetI)
  fix f
  assume "f \<in> {f. file_linked h c s f}"
  then have "file_linked h c s f" by simp
  then show "f \<in> insert s {f. file_linked h c (f_next_offset e) f}"
  proof (induction rule: file_linked.induct)
    case file_linked_first
    then show ?case by simp
  next
    case (file_linked_next f e')
    then show ?case
      using assms(2) by (auto intro: file_linked.intros)
  qed
next
  fix f
  assume "f \<in> insert s {f. file_linked h c (f_next_offset e) f}"
  then show "f \<in> {f. file_linked h c s f}"
    using file_linked_first [OF assms(1)] file_linked_from_next [OF assms]
    by auto
qed

lemma file_chain_set:
  "file_chain h c s fs \<Longrightarrow> set fs = {f. file_linked h c s f}"
proof (induction rule: file_chain.induct)
  case file_chain_end
  then show ?case by (auto dest: file_linked_VOID)
next
  case (file_chain_link off f fs)
  then show ?case using file_linked_unfold [of off h c f] by simp
qed

lemma file_chain_resolves:
  "file_chain h c s fs \<Longrightarrow> \<forall>f \<in> set fs. \<exists>e. get_file_entry h c f = Inr e"
  by (induction rule: file_chain.induct) auto

lemma dir_linked_VOID: "dir_linked h c s d \<Longrightarrow> s \<noteq> ROMFS_VOID_ENTRY"
  by (induction rule: dir_linked.induct) simp_all

lemma dir_linked_from_child:
  assumes "s \<noteq> ROMFS_VOID_ENTRY" and "get_dir_entry h c s = Inr e"
    and "dir_linked h c (directory_offset e) d"
  shows "dir_linked h c s d"
  using assms(3)
proof (induction rule: dir_linked.induct)
  case dir_linked_first
  then show ?case
    using dir_linked.dir_linked_child [OF dir_linked.dir_linked_first [OF assms(1)] assms(2)] by simp
next
  case (dir_linked_next d e')
  then show ?case by (blast intro: dir_linked.dir_linked_next)
next
  case (dir_linked_child d e')
  then show ?case by (blast intro: dir_linked.dir_linked_child)
qed

lemma dir_linked_from_next:
  assumes "s \<noteq> ROMFS_VOID_ENTRY" and "get_dir_entry h c s = Inr e"
    and "dir_linked h c (d_next_offset e) d"
  shows "dir_linked h c s d"
  using assms(3)
proof (induction rule: dir_linked.induct)
  case dir_linked_first
  then show ?case
    using dir_linked.dir_linked_next [OF dir_linked.dir_linked_first [OF assms(1)] assms(2)] by simp
next
  case (dir_linked_next d e')
  then show ?case by (blast intro: dir_linked.dir_linked_next)
next
  case (dir_linked_child d e')
  then show ?case by (blast intro: dir_linked.dir_linked_child)
qed

lemma dir_linked_unfold:
  assumes "s \<noteq> ROMFS_VOID_ENTRY" and "get_dir_entry h c s = Inr e"
  shows "{d. dir_linked h c s d} =
           insert s ({d. dir_linked h c (directory_offset e) d}
                     \<union> {d. dir_linked h c (d_next_offset e) d})"
proof (intro equalityI subsetI)
  fix d
  assume "d \<in> {d. dir_linked h c s d}"
  then have "dir_linked h c s d" by simp
  then show "d \<in> insert s ({d. dir_linked h c (directory_offset e) d}
                     \<union> {d. dir_linked h c (d_next_offset e) d})"
  proof (induction rule: dir_linked.induct)
    case dir_linked_first
    then show ?case by simp
  next
    case (dir_linked_next d e')
    then show ?case
      using assms(2) by (auto intro: dir_linked.intros)
  next
    case (dir_linked_child d e')
    then show ?case
      using assms(2) by (auto intro: dir_linked.intros)
  qed
next
  fix d
  assume "d \<in> insert s ({d. dir_linked h c (directory_offset e) d}
                     \<union> {d. dir_linked h c (d_next_offset e) d})"
  then show "d \<in> {d. dir_linked h c s d}"
    using dir_linked_first [OF assms(1)] dir_linked_from_child [OF assms]
      dir_linked_from_next [OF assms]
    by auto
qed

lemma files_of_entry:
  "get_dir_entry h c d = Inr e \<Longrightarrow> files_of h c d = {f. file_linked h c (file_offset e) f}"
  by (simp add: files_of_def)

lemma reachable_directories_entry:
  "get_dir_entry h c r = Inr e \<Longrightarrow>
   reachable_directories h c r = insert r {d. dir_linked h c (directory_offset e) d}"
  by (simp add: reachable_directories_def)

lemma directory_files_set_both:
  "(directory_files h c off fs \<longrightarrow> set fs = reachable_files h c off)
   \<and> (sibling_files h c off' gs \<longrightarrow>
        set gs = (\<Union>d \<in> {d. dir_linked h c off' d}. files_of h c d))"
proof (induction rule: directory_files_sibling_files.induct)
  case (directory_filesI off d fs gs)
  then show ?case
    by (simp add: reachable_files_def reachable_directories_entry files_of_entry
        file_chain_set Un_commute)
next
  case sibling_files_end
  then show ?case by (auto dest: dir_linked_VOID)
next
  case (sibling_files_link off d fs gs)
  have "set (fs @ gs) = reachable_files h c off
          \<union> (\<Union>x \<in> {x. dir_linked h c (d_next_offset d) x}. files_of h c x)"
    using sibling_files_link by simp
  also have "\<dots> = (\<Union>x \<in> {x. dir_linked h c off x}. files_of h c x)"
    unfolding dir_linked_unfold [OF sibling_files_link(1,2)] reachable_files_def
      reachable_directories_entry [OF sibling_files_link(2)]
    by auto
  finally show ?case .
qed

lemma directory_files_set:
  "directory_files h c off fs \<Longrightarrow> set fs = reachable_files h c off"
  using directory_files_set_both by blast

lemma directory_files_resolve_files_both:
  "(directory_files h c off fs \<longrightarrow> (\<forall>f \<in> set fs. \<exists>e. get_file_entry h c f = Inr e))
   \<and> (sibling_files h c off' gs \<longrightarrow> (\<forall>f \<in> set gs. \<exists>e. get_file_entry h c f = Inr e))"
proof (induction rule: directory_files_sibling_files.induct)
  case (directory_filesI off d fs gs)
  then show ?case using file_chain_resolves [of h c "file_offset d" fs] by auto
next
  case sibling_files_end
  then show ?case by simp
next
  case (sibling_files_link off d fs gs)
  then show ?case by auto
qed

lemma directory_files_resolve_dirs_both:
  "(directory_files h c off fs \<longrightarrow>
      (\<forall>d \<in> reachable_directories h c off. \<exists>e. get_dir_entry h c d = Inr e))
   \<and> (sibling_files h c off' gs \<longrightarrow>
      (\<forall>d \<in> {d. dir_linked h c off' d}. \<exists>e. get_dir_entry h c d = Inr e))"
proof (induction rule: directory_files_sibling_files.induct)
  case (directory_filesI off d fs gs)
  then show ?case by (auto simp: reachable_directories_entry)
next
  case sibling_files_end
  then show ?case by (auto dest: dir_linked_VOID)
next
  case (sibling_files_link off d fs gs)
  then show ?case
    unfolding dir_linked_unfold [OF sibling_files_link(1,2)]
      reachable_directories_entry [OF sibling_files_link(2)]
    by auto
qed

lemma walk_resolves_everything:
  assumes "directory_files h c off fs"
  shows "(\<forall>d \<in> reachable_directories h c off. romfsGetDirectoryEntry (Some c) d \<noteq> NULL)
       \<and> (\<forall>f \<in> reachable_files h c off. romfsGetFileEntry (Some c) f \<noteq> NULL)"
proof -
  have "\<forall>f \<in> reachable_files h c off. \<exists>e. get_file_entry h c f = Inr e"
    using directory_files_resolve_files_both [of h c off fs] assms
      directory_files_set [OF assms] by blast
  moreover have "\<forall>d \<in> reachable_directories h c off. \<exists>e. get_dir_entry h c d = Inr e"
    using directory_files_resolve_dirs_both [of h c off fs] assms by blast
  ultimately show ?thesis
    by (blast dest: get_file_entry_resolved get_dir_entry_resolved)
qed

lemmas sample_defs = sample_heap_def broken_heap_def heap_of_tables_def sample_context_def
  zeroed_context_def sample_dir_table_def sample_file_table_def broken_file_table_def
  get_dir_entry_def get_file_entry_def romfsGetDirectoryEntry_nat romfsGetFileEntry_nat
  load_dir_entry_def load_file_entry_def load_bytes_def
  sizeof_RomFileSystemDirectoryEntry_def sizeof_RomFileSystemFileEntry_def
  decode_dir_entry_def decode_file_entry_def le32_def le64_def ROMFS_VOID_ENTRY_def

lemma sample_root:
  "get_dir_entry sample_heap sample_context 0 =
     Inr \<lparr>d_parent_offset = 0, d_next_offset = 0xFFFFFFFF, directory_offset = 0x18,
       file_offset = 0, d_bucket_offset = 0xFFFFFFFF, d_name_length = 0\<rparr>"
  by (simp add: sample_defs)

lemma sample_sub:
  "get_dir_entry sample_heap sample_context 0x18 =
     Inr \<lparr>d_parent_offset = 0, d_next_offset = 0xFFFFFFFF, directory_offset = 0xFFFFFFFF,
       file_offset = 0x48, d_bucket_offset = 0xFFFFFFFF, d_name_length = 3\<rparr>"
  by (simp add: sample_defs)

lemma sample_file_a:
  "get_file_entry sample_heap sample_context 0 =
     Inr \<lparr>f_parent_offset = 0, f_next_offset = 0x24, f_offset = 0, f_size = 10,
       f_bucket_offset = 0xFFFFFFFF, f_name_length = 1\<rparr>"
  by (simp add: sample_defs)

lemma sample_file_b:
  "get_file_entry sample_heap sample_context 0x24 =
     Inr \<lparr>f_parent_offset = 0, f_next_offset = 0xFFFFFFFF, f_offset = 16, f_size = 20,
       f_bucket_offset = 0xFFFFFFFF, f_name_length = 1\<rparr>"
  by (simp add: sample_defs)

lemma sample_file_c:
  "get_file_entry sample_heap sample_context 0x48 =
     Inr \<lparr>f_parent_offset = 0x18, f_next_offset = 0xFFFFFFFF, f_offset = 48, f_size = 30,
       f_bucket_offset = 0xFFFFFFFF, f_name_length = 1\<rparr>"
  by (simp add: sample_defs)

lemma five: "(5::nat) = Suc (Suc (Suc (Suc (Suc 0))))"
  by simp

lemma sample_run: "romfsGetDirectoryDataSize 5 sample_heap sample_context 0 = Some (Inr 60)"
  unfolding five
  by (simp add: sample_root sample_sub sample_file_a sample_file_b sample_file_c
      ROMFS_VOID_ENTRY_def)

lemma unat_sum_list_u64:
  "unat (sum_list (ws :: u64 list)) = sum_list (map unat ws) mod 2 ^ 64"
proof (induction ws)
  case Nil
  then show ?case by simp
next
  case (Cons w ws)
  have "unat (w + sum_list ws) = (unat w + unat (sum_list ws)) mod 2 ^ 64"
    by (simp add: unat_word_ariths)
  also have "\<dots> = (unat w + sum_list (map unat ws) mod 2 ^ 64) mod 2 ^ 64"
    by (simp only: Cons.IH)
  also have "\<dots> = (unat w + sum_list (map unat ws)) mod 2 ^ 64"
    by (rule mod_add_right_eq)
  finally show ?case by simp
qed

lemma walk_total_exact:
  assumes walk: "directory_files h c off fs" and once: "distinct fs"
    and fits: "(\<Sum>f \<in> reachable_files h c off. unat (file_size_at h c f)) < 2 ^ 64"
  shows "unat (sum_list (map (file_size_at h c) fs))
           = (\<Sum>f \<in> reachable_files h c off. unat (file_size_at h c f))"
proof -
  have "sum_list (map unat (map (file_size_at h c) fs))
          = (\<Sum>f \<in> set fs. unat (file_size_at h c f))"
    using sum_list_distinct_conv_sum_set [OF once, of "\<lambda>f. unat (file_size_at h c f)"]
    by (simp add: comp_def)
  also have "\<dots> = (\<Sum>f \<in> reachable_files h c off. unat (file_size_at h c f))"
    by (simp add: directory_files_set [OF walk])
  finally have eq: "sum_list (map unat (map (file_size_at h c) fs))
          = (\<Sum>f \<in> reachable_files h c off. unat (file_size_at h c f))" .
  show ?thesis
    using fits by (simp only: unat_sum_list_u64 eq mod_less)
qed

lemma directory_size_exact:
  assumes walk: "directory_files h c off fs" and once: "distinct fs"
    and fits: "(\<Sum>f \<in> reachable_files h c off. unat (file_size_at h c f)) < 2 ^ 64"
  shows "\<exists>n. \<forall>k\<ge>n. \<exists>w. romfsGetDirectoryDataSize k h c off = Some (Inr w)
           \<and> unat w = (\<Sum>f \<in> reachable_files h c off. unat (file_size_at h c f))"
  using directory_size_returns [OF walk] walk_total_exact [OF assms] by metis

lemma leaf_directory_size:
  assumes "get_dir_entry h c off = Inr d" and "file_offset d = ROMFS_VOID_ENTRY"
    and "directory_offset d = ROMFS_VOID_ENTRY"
  shows "\<forall>k\<ge>2. romfsGetDirectoryDataSize k h c off = Some (Inr 0)"
proof (intro allI impI)
  fix k :: nat
  assume "2 \<le> k"
  then obtain j where "k = Suc (Suc j)"
    by (metis Suc_le_D numeral_2_eq_2 Suc_le_mono)
  with assms show "romfsGetDirectoryDataSize k h c off = Some (Inr 0)" by simp
qed

lemma file_chain_exists:
  assumes res: "\<forall>f. file_linked h c s f \<longrightarrow> (\<exists>e. get_file_entry h c f = Inr e)"
    and acy: "acyclic {(f, g). file_linked h c s f \<and> (f, g) \<in> file_links h c}"
  shows "\<exists>fs. file_chain h c s fs"
proof -
  let ?r = "{(f, g). file_linked h c s f \<and> (f, g) \<in> file_links h c}"
  have wf: "wf (?r\<inverse>)"
    by (rule finite_acyclic_wf_converse [OF _ acy]) simp
  have chain: "file_linked h c s f \<Longrightarrow> \<exists>fs. file_chain h c f fs" for f
  proof (induction f rule: wf_induct_rule [OF wf])
    case (1 f)
    from "1.prems" res obtain e where e: "get_file_entry h c f = Inr e" by blast
    have nonvoid: "f \<noteq> ROMFS_VOID_ENTRY"
      using "1.prems" by (induction rule: file_linked.induct) simp_all
    show ?case
    proof (cases "f_next_offset e = ROMFS_VOID_ENTRY")
      case True
      then have "file_chain h c (f_next_offset e) []"
        using file_chain_end [of h c] by simp
      then show ?thesis using file_chain_link [OF nonvoid e] by blast
    next
      case False
      have "(f_next_offset e, f) \<in> ?r\<inverse>"
        using "1.prems" e False by (auto simp: file_links_def)
      moreover have "file_linked h c s (f_next_offset e)"
        using "1.prems" e False by (rule file_linked_next)
      ultimately obtain fs where "file_chain h c (f_next_offset e) fs"
        using "1.IH" by blast
      then show ?thesis using file_chain_link [OF nonvoid e] by blast
    qed
  qed
  show ?thesis
  proof (cases "s = ROMFS_VOID_ENTRY")
    case True
    then show ?thesis using file_chain_end [of h c] by auto
  next
    case False
    then show ?thesis using chain [OF file_linked_first] by blast
  qed
qed

lemma sibling_walk_exists:
  assumes dres: "\<forall>d. dir_linked h c s d \<longrightarrow> (\<exists>e. get_dir_entry h c d = Inr e)"
    and files: "\<forall>d e. dir_linked h c s d \<longrightarrow> get_dir_entry h c d = Inr e
                  \<longrightarrow> (\<exists>fs. file_chain h c (file_offset e) fs)"
    and dacy: "acyclic {(d, x). dir_linked h c s d \<and> (d, x) \<in> dir_links h c}"
  shows "\<exists>gs. sibling_files h c s gs"
proof -
  let ?r = "{(d, x). dir_linked h c s d \<and> (d, x) \<in> dir_links h c}"
  have wf: "wf (?r\<inverse>)"
    by (rule finite_acyclic_wf_converse [OF _ dacy]) simp
  have walk: "dir_linked h c s d \<Longrightarrow> \<exists>gs. sibling_files h c d gs" for d
  proof (induction d rule: wf_induct_rule [OF wf])
    case (1 d)
    from "1.prems" dres obtain e where e: "get_dir_entry h c d = Inr e" by blast
    have nonvoid: "d \<noteq> ROMFS_VOID_ENTRY"
      using "1.prems" by (induction rule: dir_linked.induct) simp_all
    from files "1.prems" e obtain fs where fs: "file_chain h c (file_offset e) fs"
      by blast
    have "\<exists>gs. sibling_files h c (directory_offset e) gs"
    proof (cases "directory_offset e = ROMFS_VOID_ENTRY")
      case True
      then show ?thesis using sibling_files_end [of h c] by auto
    next
      case False
      have "(directory_offset e, d) \<in> ?r\<inverse>"
        using "1.prems" e False by (auto simp: dir_links_def)
      moreover have "dir_linked h c s (directory_offset e)"
        using "1.prems" e False by (rule dir_linked_child)
      ultimately show ?thesis using "1.IH" by blast
    qed
    then obtain gs where gs: "sibling_files h c (directory_offset e) gs" by blast
    have below: "directory_files h c d (fs @ gs)"
      using e fs gs by (rule directory_filesI)
    have "\<exists>hs. sibling_files h c (d_next_offset e) hs"
    proof (cases "d_next_offset e = ROMFS_VOID_ENTRY")
      case True
      then show ?thesis using sibling_files_end [of h c] by auto
    next
      case False
      have "(d_next_offset e, d) \<in> ?r\<inverse>"
        using "1.prems" e False by (auto simp: dir_links_def)
      moreover have "dir_linked h c s (d_next_offset e)"
        using "1.prems" e False by (rule dir_linked_next)
      ultimately show ?thesis using "1.IH" by blast
    qed
    then obtain hs where "sibling_files h c (d_next_offset e) hs" by blast
    then show ?case using sibling_files_link [OF nonvoid e below] by blast
  qed
  show ?thesis
  proof (cases "s = ROMFS_VOID_ENTRY")
    case True
    then show ?thesis using sibling_files_end [of h c] by auto
  next
    case False
    then show ?thesis using walk [OF dir_linked_first] by blast
  qed
qed

lemma acyclic_archive_has_walk:
  assumes dres: "\<forall>d \<in> reachable_directories h c off. \<exists>e. get_dir_entry h c d = Inr e"
    and fres: "\<forall>f \<in> reachable_files h c off. \<exists>e. get_file_entry h c f = Inr e"
    and facy: "acyclic {(f, g). f \<in> reachable_files h c off \<and> (f, g) \<in> file_links h c}"
    and dacy: "acyclic {(d, x). d \<in> reachable_directories h c off \<and> (d, x) \<in> dir_links h c}"
  shows "\<exists>fs. directory_files h c off fs"
proof -
  from dres obtain r where r: "get_dir_entry h c off = Inr r"
    by (auto simp: reachable_directories_def)
  have files: "\<exists>fs. file_chain h c (file_offset e) fs"
    if d: "d \<in> reachable_directories h c off" and e: "get_dir_entry h c d = Inr e" for d e
  proof (rule file_chain_exists)
    have sub: "{f. file_linked h c (file_offset e) f} \<subseteq> reachable_files h c off"
      using d e by (auto simp: reachable_files_def files_of_def)
    show "\<forall>f. file_linked h c (file_offset e) f \<longrightarrow> (\<exists>e. get_file_entry h c f = Inr e)"
      using sub fres by blast
    show "acyclic {(f, g). file_linked h c (file_offset e) f \<and> (f, g) \<in> file_links h c}"
      by (rule acyclic_subset [OF facy]) (use sub in auto)
  qed
  have below: "{d. dir_linked h c (directory_offset r) d} \<subseteq> reachable_directories h c off"
    using r by (auto simp: reachable_directories_def)
  have "\<exists>gs. sibling_files h c (directory_offset r) gs"
  proof (rule sibling_walk_exists)
    show "\<forall>d. dir_linked h c (directory_offset r) d \<longrightarrow> (\<exists>e. get_dir_entry h c d = Inr e)"
      using below dres by blast
    show "\<forall>d e. dir_linked h c (directory_offset r) d \<longrightarrow> get_dir_entry h c d = Inr e
            \<longrightarrow> (\<exists>fs. file_chain h c (file_offset e) fs)"
      using below files by blast
    show "acyclic {(d, x). dir_linked h c (directory_offset r) d \<and> (d, x) \<in> dir_links h c}"
      by (rule acyclic_subset [OF dacy]) (use below in auto)
  qed
  moreover have "\<exists>fs. file_chain h c (file_offset r) fs"
    using files [OF _ r] by (simp add: reachable_directories_def)
  ultimately show ?thesis using directory_filesI [OF r] by blast
qed

lemma void: "(0xFFFFFFFF :: u32) = ROMFS_VOID_ENTRY"
  by (simp add: ROMFS_VOID_ENTRY_def)

lemma sample_chain_root: "file_chain sample_heap sample_context 0 [0, 0x24]"
proof -
  have "file_chain sample_heap sample_context 0x24 [0x24]"
    by (rule file_chain_link [OF _ sample_file_b])
       (simp_all add: void file_chain_end, simp add: ROMFS_VOID_ENTRY_def)
  then show ?thesis
    by (intro file_chain_link [OF _ sample_file_a]) (simp_all add: ROMFS_VOID_ENTRY_def)
qed

lemma sample_chain_sub: "file_chain sample_heap sample_context 0x48 [0x48]"
  by (rule file_chain_link [OF _ sample_file_c])
     (simp_all add: void file_chain_end, simp add: ROMFS_VOID_ENTRY_def)

lemma sample_walk_sub: "directory_files sample_heap sample_context 0x18 [0x48]"
  using directory_filesI [OF sample_sub, of "[0x48]" "[]"] sample_chain_sub
  by (simp add: void sibling_files_end)

lemma sample_siblings: "sibling_files sample_heap sample_context 0x18 [0x48]"
  using sibling_files_link [OF _ sample_sub sample_walk_sub, of "[]"]
  by (simp add: void sibling_files_end) (simp add: ROMFS_VOID_ENTRY_def)

lemma sample_walk: "directory_files sample_heap sample_context 0 [0, 0x24, 0x48]"
  using directory_filesI [OF sample_root, of "[0, 0x24]" "[0x48]"]
    sample_chain_root sample_siblings
  by simp

lemma sample_reachable_files:
  "reachable_files sample_heap sample_context 0 = {0, 0x24, 0x48}"
  using directory_files_set [OF sample_walk] by simp

lemma sample_total:
  "(\<Sum>f \<in> reachable_files sample_heap sample_context 0.
        unat (file_size_at sample_heap sample_context f)) = 60"
  by (simp add: sample_reachable_files file_size_at_entry [OF sample_file_a]
      file_size_at_entry [OF sample_file_b] file_size_at_entry [OF sample_file_c])

lemma dir_linked_VOID_empty: "{d. dir_linked h c ROMFS_VOID_ENTRY d} = {}"
  by (auto dest: dir_linked_VOID)

lemma sample_reachable_directories:
  "reachable_directories sample_heap sample_context 0 = {0, 0x18}"
proof -
  have "{d. dir_linked sample_heap sample_context 0x18 d} = {0x18}"
    using dir_linked_unfold [OF _ sample_sub]
    by (simp add: void dir_linked_VOID_empty) (simp add: ROMFS_VOID_ENTRY_def)
  then show ?thesis
    by (simp add: reachable_directories_entry [OF sample_root])
qed

lemma sample_file_links:
  "{(f, g). f \<in> reachable_files sample_heap sample_context 0
        \<and> (f, g) \<in> file_links sample_heap sample_context} \<subseteq> {(0, 0x24)}"
  by (auto simp: sample_reachable_files file_links_def sample_file_a sample_file_b
      sample_file_c ROMFS_VOID_ENTRY_def)

lemma sample_dir_links:
  "{(d, x). d \<in> reachable_directories sample_heap sample_context 0
        \<and> (d, x) \<in> dir_links sample_heap sample_context} \<subseteq> {(0, 0x18)}"
  by (auto simp: sample_reachable_directories dir_links_def sample_root sample_sub
      ROMFS_VOID_ENTRY_def)

lemma acyclic_single: "a \<noteq> b \<Longrightarrow> acyclic {(a, b)}"
proof -
  assume "a \<noteq> b"
  moreover have "acyclic ({} :: ('a \<times> 'a) set)" by (simp add: acyclic_def)
  ultimately show ?thesis by auto
qed

lemma sample_well_formed:
  "(\<forall>d \<in> reachable_directories sample_heap sample_context 0.
       \<exists>e. get_dir_entry sample_heap sample_context d = Inr e)
   \<and> (\<forall>f \<in> reachable_files sample_heap sample_context 0.
       \<exists>e. get_file_entry sample_heap sample_context f = Inr e)
   \<and> acyclic {(f, g). f \<in> reachable_files sample_heap sample_context 0
        \<and> (f, g) \<in> file_links sample_heap sample_context}
   \<and> acyclic {(d, x). d \<in> reachable_directories sample_heap sample_context 0
        \<and> (d, x) \<in> dir_links sample_heap sample_context}"
proof (intro conjI)
  show "\<forall>d \<in> reachable_directories sample_heap sample_context 0.
       \<exists>e. get_dir_entry sample_heap sample_context d = Inr e"
    by (simp add: sample_reachable_directories sample_root sample_sub)
  show "\<forall>f \<in> reachable_files sample_heap sample_context 0.
       \<exists>e. get_file_entry sample_heap sample_context f = Inr e"
    by (simp add: sample_reachable_files sample_file_a sample_file_b sample_file_c)
  have "acyclic {(0 :: u32, 0x24 :: u32)}" by (rule acyclic_single) simp
  then show "acyclic {(f, g). f \<in> reachable_files sample_heap sample_context 0
        \<and> (f, g) \<in> file_links sample_heap sample_context}"
    by (rule acyclic_subset) (rule sample_file_links)
  have "acyclic {(0 :: u32, 0x18 :: u32)}" by (rule acyclic_single) simp
  then show "acyclic {(d, x). d \<in> reachable_directories sample_heap sample_context 0
        \<and> (d, x) \<in> dir_links sample_heap sample_context}"
    by (rule acyclic_subset) (rule sample_dir_links)
qed

lemma truncated_root:
  "get_dir_entry truncated_tables_heap truncated_tables_context 0 =
     Inr \<lparr>d_parent_offset = 0, d_next_offset = 0xFFFFFFFF, directory_offset = 0xFFFFFFFF,
       file_offset = 0xFFFFFFFF, d_bucket_offset = 0xFFFFFFFF, d_name_length = 8\<rparr>"
  by (simp add: get_dir_entry_def romfsGetDirectoryEntry_nat truncated_tables_context_def
      zeroed_context_def truncated_tables_dir_entry)

lemma broken_root:
  "get_dir_entry broken_heap sample_context 0 =
     Inr \<lparr>d_parent_offset = 0, d_next_offset = 0xFFFFFFFF, directory_offset = 0x18,
       file_offset = 0, d_bucket_offset = 0xFFFFFFFF, d_name_length = 0\<rparr>"
  by (simp add: sample_defs)

lemma broken_file_a:
  "get_file_entry broken_heap sample_context 0 =
     Inr \<lparr>f_parent_offset = 0, f_next_offset = 0x24, f_offset = 0, f_size = 10,
       f_bucket_offset = 0xFFFFFFFF, f_name_length = 1\<rparr>"
  by (simp add: sample_defs)

lemma broken_file_b:
  "get_file_entry broken_heap sample_context 0x24 =
     Inr \<lparr>f_parent_offset = 0, f_next_offset = 0x1000, f_offset = 16, f_size = 20,
       f_bucket_offset = 0xFFFFFFFF, f_name_length = 1\<rparr>"
  by (simp add: sample_defs)

lemma broken_link: "romfsGetFileEntry (Some sample_context) 0x1000 = NULL"
  by (simp add: romfsGetFileEntry_nat sample_context_def zeroed_context_def)

lemma broken_walk: "directory_breaks broken_heap sample_context 0"
proof -
  have "file_chain_breaks broken_heap sample_context 0x1000"
    by (rule file_breaks_here [OF _ broken_link]) (simp add: ROMFS_VOID_ENTRY_def)
  then have "file_chain_breaks broken_heap sample_context 0x24"
    using file_breaks_later [OF _ broken_file_b] by (simp add: ROMFS_VOID_ENTRY_def)
  then have "file_chain_breaks broken_heap sample_context 0"
    using file_breaks_later [OF _ broken_file_a] by (simp add: ROMFS_VOID_ENTRY_def)
  then show ?thesis
    using directory_breaks_files [OF broken_root] by simp
qed

text \<open>
  C7. Take an archive that is well formed and acyclic below the directory at \<open>off\<close>:
  the walk from \<open>off\<close> resolves every link and ends (\<open>directory_files\<close>), it meets
  no file entry twice, and the declared sizes of the files reachable from \<open>off\<close> add
  up to less than \<open>2 ^ 64\<close>. Then, with enough fuel, \<^verbatim>\<open>romfsGetDirectoryDataSize\<close>
  returns the sum of the declared sizes of the file entries reachable from \<open>off\<close>, and
  \<^verbatim>\<open>romfsGetTotalDataSize\<close> the one of the files reachable from the root. A directory
  whose \<^verbatim>\<open>file_offset\<close> and \<^verbatim>\<open>directory_offset\<close> are \<^verbatim>\<open>ROMFS_VOID_ENTRY\<close> has
  size 0. Last, the walk exists whenever every reachable directory and file entry
  resolves and the links between the reachable entries are acyclic.
\<close>

theorem size_accounting_exact:
  "(directory_files h c off fs \<and> distinct fs
      \<and> (\<Sum>f \<in> reachable_files h c off. unat (file_size_at h c f)) < 2 ^ 64
    \<longrightarrow> (\<exists>n. \<forall>k\<ge>n. \<exists>w. romfsGetDirectoryDataSize k h c off = Some (Inr w)
           \<and> unat w = (\<Sum>f \<in> reachable_files h c off. unat (file_size_at h c f))))
   \<and> (directory_files h c 0 fs \<and> distinct fs
      \<and> (\<Sum>f \<in> reachable_files h c 0. unat (file_size_at h c f)) < 2 ^ 64
    \<longrightarrow> (\<exists>n. \<forall>k\<ge>n. \<exists>w. romfsGetTotalDataSize k h c = Some (Inr w)
           \<and> unat w = (\<Sum>f \<in> reachable_files h c 0. unat (file_size_at h c f))))
   \<and> (get_dir_entry h c off = Inr d \<and> file_offset d = ROMFS_VOID_ENTRY
      \<and> directory_offset d = ROMFS_VOID_ENTRY
    \<longrightarrow> (\<forall>k\<ge>2. romfsGetDirectoryDataSize k h c off = Some (Inr 0)))
   \<and> ((\<forall>d \<in> reachable_directories h c off. \<exists>e. get_dir_entry h c d = Inr e)
      \<and> (\<forall>f \<in> reachable_files h c off. \<exists>e. get_file_entry h c f = Inr e)
      \<and> acyclic {(f, g). f \<in> reachable_files h c off \<and> (f, g) \<in> file_links h c}
      \<and> acyclic {(d, x). d \<in> reachable_directories h c off \<and> (d, x) \<in> dir_links h c}
    \<longrightarrow> (\<exists>fs. directory_files h c off fs))"
  unfolding romfsGetTotalDataSize_def
  using directory_size_exact [of h c off fs] directory_size_exact [of h c 0 fs]
    leaf_directory_size [of h c off d] acyclic_archive_has_walk [of h c off]
  by blast

theorem size_accounting_exact_witness:
  "directory_files sample_heap sample_context 0 [0, 0x24, 0x48]
   \<and> (\<exists>n. \<forall>k\<ge>n. \<exists>w. romfsGetDirectoryDataSize k sample_heap sample_context 0 = Some (Inr w)
          \<and> unat w = 60)
   \<and> (\<exists>n. \<forall>k\<ge>n. \<exists>w. romfsGetTotalDataSize k sample_heap sample_context = Some (Inr w)
          \<and> unat w = 60)
   \<and> romfsGetDirectoryDataSize 2 truncated_tables_heap truncated_tables_context 0
          = Some (Inr 0)
   \<and> (\<exists>fs. directory_files sample_heap sample_context 0 fs)"
proof -
  have hyp: "directory_files sample_heap sample_context 0 [0, 0x24, 0x48]
      \<and> distinct [0 :: u32, 0x24, 0x48]
      \<and> (\<Sum>f \<in> reachable_files sample_heap sample_context 0.
            unat (file_size_at sample_heap sample_context f)) < 2 ^ 64"
    by (simp add: sample_walk sample_total)
  have leaf: "get_dir_entry truncated_tables_heap truncated_tables_context 0 =
       Inr \<lparr>d_parent_offset = 0, d_next_offset = 0xFFFFFFFF, directory_offset = 0xFFFFFFFF,
         file_offset = 0xFFFFFFFF, d_bucket_offset = 0xFFFFFFFF, d_name_length = 8\<rparr>
      \<and> file_offset \<lparr>d_parent_offset = 0, d_next_offset = 0xFFFFFFFF,
         directory_offset = 0xFFFFFFFF,
         file_offset = 0xFFFFFFFF, d_bucket_offset = 0xFFFFFFFF, d_name_length = 8\<rparr>
          = ROMFS_VOID_ENTRY
      \<and> directory_offset \<lparr>d_parent_offset = 0, d_next_offset = 0xFFFFFFFF,
         directory_offset = 0xFFFFFFFF,
         file_offset = 0xFFFFFFFF, d_bucket_offset = 0xFFFFFFFF, d_name_length = 8\<rparr>
          = ROMFS_VOID_ENTRY"
    by (simp add: truncated_root ROMFS_VOID_ENTRY_def)
  show ?thesis
    using size_accounting_exact [of sample_heap sample_context 0 "[0, 0x24, 0x48]"]
      size_accounting_exact [of truncated_tables_heap truncated_tables_context 0 "[]"
        "\<lparr>d_parent_offset = 0, d_next_offset = 0xFFFFFFFF, directory_offset = 0xFFFFFFFF,
         file_offset = 0xFFFFFFFF, d_bucket_offset = 0xFFFFFFFF, d_name_length = 8\<rparr>"]
      hyp leaf sample_well_formed
    unfolding sample_total
    by (meson order_refl)
qed

text \<open>
  C8. When the walk meets an offset that does not resolve, the call returns
  \<open>TraversalError\<close> (with enough fuel), for \<^verbatim>\<open>romfsGetDirectoryDataSize\<close> and for
  \<^verbatim>\<open>romfsGetTotalDataSize\<close>; an error carries no sum. And a call that returns a sum
  has resolved every directory and every file reachable from the directory, and the sum
  is the one over the whole walk, whose files are the reachable ones: a success is
  never a partial sum.
\<close>

theorem size_accounting_error_atomicity:
  "(directory_breaks h c off \<longrightarrow>
      (\<exists>n. \<forall>k\<ge>n. romfsGetDirectoryDataSize k h c off = Some (Inl TraversalError)))
   \<and> (directory_breaks h c 0 \<longrightarrow>
      (\<exists>n. \<forall>k\<ge>n. romfsGetTotalDataSize k h c = Some (Inl TraversalError)))
   \<and> (romfsGetDirectoryDataSize k h c off = Some (Inr s) \<longrightarrow>
      (\<forall>d \<in> reachable_directories h c off. romfsGetDirectoryEntry (Some c) d \<noteq> NULL)
      \<and> (\<forall>f \<in> reachable_files h c off. romfsGetFileEntry (Some c) f \<noteq> NULL)
      \<and> (\<exists>fs. directory_files h c off fs \<and> set fs = reachable_files h c off
            \<and> s = sum_list (map (file_size_at h c) fs)))"
proof (intro conjI impI)
  assume "directory_breaks h c off"
  then show "\<exists>n. \<forall>k\<ge>n. romfsGetDirectoryDataSize k h c off = Some (Inl TraversalError)"
    by (rule directory_breaks_returns)
next
  assume "directory_breaks h c 0"
  then show "\<exists>n. \<forall>k\<ge>n. romfsGetTotalDataSize k h c = Some (Inl TraversalError)"
    unfolding romfsGetTotalDataSize_def by (rule directory_breaks_returns)
next
  assume run: "romfsGetDirectoryDataSize k h c off = Some (Inr s)"
  from directory_size_sound [OF run] obtain fs where
    fs: "directory_files h c off fs" "s = sum_list (map (file_size_at h c) fs)"
    by blast
  show "\<forall>d \<in> reachable_directories h c off. romfsGetDirectoryEntry (Some c) d \<noteq> NULL"
    using walk_resolves_everything [OF fs(1)] by blast
  show "\<forall>f \<in> reachable_files h c off. romfsGetFileEntry (Some c) f \<noteq> NULL"
    using walk_resolves_everything [OF fs(1)] by blast
  show "\<exists>fs. directory_files h c off fs \<and> set fs = reachable_files h c off
            \<and> s = sum_list (map (file_size_at h c) fs)"
    using fs directory_files_set [OF fs(1)] by blast
qed

theorem size_accounting_error_atomicity_witness:
  "directory_breaks broken_heap sample_context 0
   \<and> (\<exists>n. \<forall>k\<ge>n. romfsGetDirectoryDataSize k broken_heap sample_context 0
          = Some (Inl TraversalError))
   \<and> (\<exists>n. \<forall>k\<ge>n. romfsGetTotalDataSize k broken_heap sample_context
          = Some (Inl TraversalError))
   \<and> romfsGetDirectoryDataSize 5 sample_heap sample_context 0 = Some (Inr 60)
   \<and> 0x18 \<in> reachable_directories sample_heap sample_context 0
   \<and> romfsGetDirectoryEntry (Some sample_context) 0x18 \<noteq> NULL
   \<and> 0x48 \<in> reachable_files sample_heap sample_context 0
   \<and> romfsGetFileEntry (Some sample_context) 0x48 \<noteq> NULL
   \<and> (\<exists>fs. directory_files sample_heap sample_context 0 fs
         \<and> set fs = reachable_files sample_heap sample_context 0
         \<and> (60 :: u64) = sum_list (map (file_size_at sample_heap sample_context) fs))"
proof -
  have "0x18 \<in> reachable_directories sample_heap sample_context 0"
    and "0x48 \<in> reachable_files sample_heap sample_context 0"
    by (simp_all add: sample_reachable_directories sample_reachable_files)
  then show ?thesis
    using size_accounting_error_atomicity [of broken_heap sample_context 0 5 60]
      size_accounting_error_atomicity [of sample_heap sample_context 0 5 60]
      broken_walk sample_run
    by blast
qed

section \<open>Releasing a context\<close>

text \<open>
  C9. Releasing a context that has been released changes nothing: the second call
  returns the context and the heap of the first, so it makes no call to
  \<^verbatim>\<open>free\<close> and the record of calls and the allocated blocks stay as they were;
  and a context that was there is all zero after the first call.
\<close>

theorem romfsFreeContext_idempotent:
  "(let (ctx1, h1) = romfsFreeContext ctx h; (ctx2, h2) = romfsFreeContext ctx1 h1
    in ctx2 = ctx1 \<and> h2 = h1 \<and> calls h2 = calls h1 \<and> blocks h2 = blocks h1
       \<and> ctx1 = map_option (\<lambda>_. zeroed_context) ctx)"
  by (cases ctx) (simp_all add: romfsFreeContext_def Let_def zeroed_context_def)

text \<open>
  C10. With a \<^verbatim>\<open>NULL\<close> context, or a context whose table pointer is \<^verbatim>\<open>NULL\<close>
  (as it is after \<^verbatim>\<open>romfsFreeContext\<close>), both resolvers return \<^verbatim>\<open>NULL\<close> at
  every offset; and \<^verbatim>\<open>romfsFreeContext\<close> on a \<^verbatim>\<open>NULL\<close> context returns with
  the heap untouched.
\<close>

theorem null_handling:
  "romfsGetDirectoryEntry None x = NULL
   \<and> romfsGetFileEntry None x = NULL
   \<and> romfsGetDirectoryEntry (Some (c\<lparr>dir_table := NULL\<rparr>)) x = NULL
   \<and> romfsGetFileEntry (Some (c\<lparr>file_table := NULL\<rparr>)) x = NULL
   \<and> romfsGetDirectoryEntry (fst (romfsFreeContext ctx h)) x = NULL
   \<and> romfsGetFileEntry (fst (romfsFreeContext ctx h)) x = NULL
   \<and> romfsFreeContext None h = (None, h)"
  by (cases ctx) (simp_all add: romfsGetDirectoryEntry_def romfsGetFileEntry_def
      romfsFreeContext_def Let_def zeroed_context_def)


end
